theory Spec2Isabelle
  imports Complex_Main "HOL-Library.Word"
begin

section \<open>Nested fidget spinners with Maxwell's Demon: the simulation core\<close>

text \<open>
  The embedding follows \<^verbatim>\<open>isolated.py\<close> (the variant with audio); \<^verbatim>\<open>light.py\<close> has the
  same \<^verbatim>\<open>Particle.update\<close>, \<^verbatim>\<open>maxwells_demon\<close>, \<^verbatim>\<open>update\<close> (without the tones),
  \<^verbatim>\<open>total_energy\<close> and \<^verbatim>\<open>total_particles\<close>.

  Python floats are modelled as the real numbers: every arithmetic operation is the exact
  one, \<^verbatim>\<open>math.hypot\<close> is the Euclidean norm and \<^verbatim>\<open>math.cos\<close>, \<^verbatim>\<open>math.sin\<close> are the real
  functions. Rounding is not modelled.
\<close>

subsection \<open>Errors, random numbers and the audio output\<close>

datatype error = ZeroDivisionError | IndexError

text \<open>
  \<^verbatim>\<open>random.random()\<close> reads the global generator of the Python library. The generator is a
  stream of numbers; one call takes the head of the stream.
\<close>

type_synonym rng = "nat \<Rightarrow> real"

text \<open>A sound is the array of stereo frames of 16-bit samples given to \<^verbatim>\<open>make_sound\<close>.\<close>

type_synonym sound = "(16 word \<times> 16 word) list"

record world =
  rand :: rng
  played :: "sound list"

definition random_random :: "world \<Rightarrow> real \<times> world" where
  "random_random w = (rand w 0, w\<lparr>rand := (\<lambda>n. rand w (Suc n))\<rparr>)"

definition play :: "sound \<Rightarrow> world \<Rightarrow> world" where
  "play s w = w\<lparr>played := played w @ [s]\<rparr>"

subsection \<open>Particles\<close>

text \<open>The fields \<^verbatim>\<open>x\<close> and \<^verbatim>\<open>y\<close> of the class are \<open>px\<close> and \<open>py\<close> here.\<close>

record particle =
  px :: real
  py :: real
  vx :: real
  vy :: real
  radius :: real

definition kinetic_energy :: "particle \<Rightarrow> real" where
  "kinetic_energy p = 0.5 * ((vx p)\<^sup>2 + (vy p)\<^sup>2)"

definition hypot :: "real \<Rightarrow> real \<Rightarrow> real" where
  "hypot a b = sqrt (a\<^sup>2 + b\<^sup>2)"

text \<open>\<^verbatim>\<open>Particle.update\<close>, first two statements: the position advances.\<close>

definition advance :: "particle \<Rightarrow> real \<Rightarrow> particle" where
  "advance p dt = p\<lparr>px := px p + vx p * dt, py := py p + vy p * dt\<rparr>"

text \<open>
  \<^verbatim>\<open>Particle.update\<close>, the collision check. The division \<^verbatim>\<open>dx/dist\<close> raises
  \<^verbatim>\<open>ZeroDivisionError\<close> when \<^verbatim>\<open>dist\<close> is zero.
\<close>

definition collide :: "particle \<Rightarrow> real \<times> real \<Rightarrow> real \<Rightarrow> error + particle" where
  "collide p center lobe_radius =
     (let dx = px p - fst center;
          dy = py p - snd center;
          dist = hypot dx dy
      in if dist + radius p > lobe_radius then
           (if dist = 0 then Inl ZeroDivisionError
            else
              let nx = dx / dist;
                  ny = dy / dist;
                  dot = vx p * nx + vy p * ny
              in Inr (p\<lparr>vx := vx p - 2 * dot * nx,
                        vy := vy p - 2 * dot * ny,
                        px := fst center + nx * (lobe_radius - radius p),
                        py := snd center + ny * (lobe_radius - radius p)\<rparr>))
         else Inr p)"

text \<open>\<^verbatim>\<open>Particle.update\<close>, the random fluctuation of the velocity.\<close>

definition fluctuate :: "particle \<Rightarrow> world \<Rightarrow> particle \<times> world" where
  "fluctuate p w =
     (let (r1, w1) = random_random w;
          (r2, w2) = random_random w1
      in (p\<lparr>vx := vx p + (r1 - 0.5) * 0.01, vy := vy p + (r2 - 0.5) * 0.01\<rparr>, w2))"

definition Particle_update ::
  "particle \<Rightarrow> real \<times> real \<Rightarrow> real \<Rightarrow> real \<Rightarrow> world \<Rightarrow> error + (particle \<times> world)" where
  "Particle_update p center lobe_radius dt w =
     (case collide (advance p dt) center lobe_radius of
        Inl e \<Rightarrow> Inl e
      | Inr q \<Rightarrow> Inr (fluctuate q w))"

subsection \<open>Loops that can raise\<close>

text \<open>
  A \<^verbatim>\<open>for\<close> loop whose body can raise stops at the first exception. \<open>mapM\<close> is the loop
  over a list, \<open>mapM_state\<close> the same loop with the world passed along, \<open>mapM_enum\<close> the
  loop over \<^verbatim>\<open>enumerate(...)\<close>, and \<open>repeatM\<close> the loop \<^verbatim>\<open>for j in range(k)\<close> that
  appends one result per round.
\<close>

fun mapM :: "('a \<Rightarrow> error + 'b) \<Rightarrow> 'a list \<Rightarrow> error + 'b list" where
  "mapM f [] = Inr []"
| "mapM f (x # xs) =
     (case f x of
        Inl e \<Rightarrow> Inl e
      | Inr y \<Rightarrow> (case mapM f xs of Inl e \<Rightarrow> Inl e | Inr ys \<Rightarrow> Inr (y # ys)))"

lemma mapM_cong [fundef_cong]:
  "xs = ys \<Longrightarrow> (\<And>x. x \<in> set ys \<Longrightarrow> f x = g x) \<Longrightarrow> mapM f xs = mapM g ys"
  by (induction ys arbitrary: xs) (auto split: sum.splits)

fun mapM_state ::
  "('a \<Rightarrow> 's \<Rightarrow> error + ('b \<times> 's)) \<Rightarrow> 'a list \<Rightarrow> 's \<Rightarrow> error + ('b list \<times> 's)" where
  "mapM_state f [] s = Inr ([], s)"
| "mapM_state f (x # xs) s =
     (case f x s of
        Inl e \<Rightarrow> Inl e
      | Inr (y, s') \<Rightarrow>
          (case mapM_state f xs s' of
             Inl e \<Rightarrow> Inl e
           | Inr (ys, s'') \<Rightarrow> Inr (y # ys, s'')))"

lemma mapM_state_cong [fundef_cong]:
  "xs = ys \<Longrightarrow> s = t \<Longrightarrow> (\<And>x u. x \<in> set ys \<Longrightarrow> f x u = g x u) \<Longrightarrow>
     mapM_state f xs s = mapM_state g ys t"
  by (induction ys arbitrary: xs s t) (auto split: sum.splits prod.splits)

fun mapM_enum ::
  "(nat \<Rightarrow> 'a \<Rightarrow> 's \<Rightarrow> error + ('b \<times> 's)) \<Rightarrow> nat \<Rightarrow> 'a list \<Rightarrow> 's \<Rightarrow> error + ('b list \<times> 's)" where
  "mapM_enum f i [] s = Inr ([], s)"
| "mapM_enum f i (x # xs) s =
     (case f i x s of
        Inl e \<Rightarrow> Inl e
      | Inr (y, s') \<Rightarrow>
          (case mapM_enum f (Suc i) xs s' of
             Inl e \<Rightarrow> Inl e
           | Inr (ys, s'') \<Rightarrow> Inr (y # ys, s'')))"

lemma mapM_enum_cong [fundef_cong]:
  "xs = ys \<Longrightarrow> s = t \<Longrightarrow> i = j \<Longrightarrow> (\<And>k x u. x \<in> set ys \<Longrightarrow> f k x u = g k x u) \<Longrightarrow>
     mapM_enum f i xs s = mapM_enum g j ys t"
  by (induction ys arbitrary: xs s t i j) (auto split: sum.splits prod.splits)

fun repeatM :: "nat \<Rightarrow> ('s \<Rightarrow> error + ('a \<times> 's)) \<Rightarrow> 's \<Rightarrow> error + ('a list \<times> 's)" where
  "repeatM 0 f s = Inr ([], s)"
| "repeatM (Suc k) f s =
     (case f s of
        Inl e \<Rightarrow> Inl e
      | Inr (y, s') \<Rightarrow>
          (case repeatM k f s' of
             Inl e \<Rightarrow> Inl e
           | Inr (ys, s'') \<Rightarrow> Inr (y # ys, s'')))"

text \<open>
  The loops over the three lobes read and write \<^verbatim>\<open>self.particles[lobe_idx]\<close>: an index
  outside the list raises \<^verbatim>\<open>IndexError\<close>. \<open>for_lobes\<close> runs the body on the groups at the
  given indices, in order, and stores each result at its index.
\<close>

fun for_lobes ::
  "(nat \<Rightarrow> 'a \<Rightarrow> 's \<Rightarrow> error + ('a \<times> 's)) \<Rightarrow> nat list \<Rightarrow> 'a list \<Rightarrow> 's \<Rightarrow> error + ('a list \<times> 's)" where
  "for_lobes f [] pss s = Inr (pss, s)"
| "for_lobes f (i # is) pss s =
     (if i < length pss then
        (case f i (pss ! i) s of
           Inl e \<Rightarrow> Inl e
         | Inr (ps', s') \<Rightarrow> for_lobes f is (pss[i := ps']) s')
      else Inl IndexError)"

subsection \<open>Tones\<close>

definition BASE_FREQUENCIES :: "real list" where
  "BASE_FREQUENCIES = [220, 330, 440]"

definition SAMPLE_RATE :: real where
  "SAMPLE_RATE = 44100"

definition DURATION :: real where
  "DURATION = 0.05"

text \<open>
  \<^verbatim>\<open>int(x)\<close> of a float, and the conversion of a float to an integer type, drop the fraction.
  \<^verbatim>\<open>np.int16\<close> keeps the low 16 bits; the samples of a tone of volume at most 1 and pan
  between 0 and 1 are within the 16-bit range.
\<close>

definition trunc :: "real \<Rightarrow> int" where
  "trunc r = (if 0 \<le> r then \<lfloor>r\<rfloor> else \<lceil>r\<rceil>)"

definition int16 :: "real \<Rightarrow> 16 word" where
  "int16 r = word_of_int (trunc r)"

text \<open>\<^verbatim>\<open>np.linspace(start, stop, num, False)\<close>: \<open>num\<close> points from \<open>start\<close>, the end point left out.\<close>

definition linspace :: "real \<Rightarrow> real \<Rightarrow> nat \<Rightarrow> real list" where
  "linspace start stop num = map (\<lambda>k. start + real k * ((stop - start) / real num)) [0..<num]"

definition generate_tone :: "real \<Rightarrow> real \<Rightarrow> real \<Rightarrow> sound" where
  "generate_tone frequency volume pan =
     (let n_samples = nat (trunc (SAMPLE_RATE * DURATION));
          t = linspace 0 DURATION n_samples;
          waveform = map (\<lambda>tk. sin (2 * pi * frequency * tk) * volume) t;
          left = map (\<lambda>s. s * (1.0 - pan)) waveform;
          right = map (\<lambda>s. s * pan) waveform;
          stereo_waveform = zip left right;
          stereo_waveform_int16 = map (\<lambda>(l, r). (int16 (l * 32767), int16 (r * 32767))) stereo_waveform
      in stereo_waveform_int16)"

text \<open>
  The body of the particle loop of \<^verbatim>\<open>SpinnerNode.update\<close>: the particle moves, then its tone
  is made from its kinetic energy and played.
\<close>

definition update_particle ::
  "nat \<Rightarrow> real \<times> real \<Rightarrow> real \<Rightarrow> real \<Rightarrow> particle \<Rightarrow> world \<Rightarrow> error + (particle \<times> world)" where
  "update_particle lobe_idx lc lobe_radius dt p w =
     (case Particle_update p lc lobe_radius dt w of
        Inl e \<Rightarrow> Inl e
      | Inr (p', w1) \<Rightarrow>
          if lobe_idx < length BASE_FREQUENCIES then
            (let freq = BASE_FREQUENCIES ! lobe_idx + kinetic_energy p' * 300;
                 vol = min 1.0 (kinetic_energy p' * 8);
                 tone = generate_tone freq vol (real lobe_idx / 2)
             in Inr (p', play tone w1))
          else Inl IndexError)"

subsection \<open>Spinner nodes\<close>

datatype SpinnerNode = SpinnerNode
  (level: int)
  (center: "real \<times> real")
  (arm_length: real)
  (lobe_radius: real)
  (theta: real)
  (particles: "particle list list")
  (children: "SpinnerNode list list option")
  (max_level: int)

fun set_center :: "real \<times> real \<Rightarrow> SpinnerNode \<Rightarrow> SpinnerNode" where
  "set_center lc (SpinnerNode l c a R th pss ch ml) = SpinnerNode l lc a R th pss ch ml"

lemma size_set_center [simp]: "size (set_center lc n) = size n"
  by (cases n) simp

definition get_lobe_center :: "SpinnerNode \<Rightarrow> nat \<Rightarrow> real \<times> real" where
  "get_lobe_center self idx =
     (let angle = real idx * 2 * pi / 3 + theta self
      in (fst (center self) + cos angle * arm_length self,
          snd (center self) + sin angle * arm_length self))"

subsubsection \<open>Maxwell's Demon\<close>

definition demon_particle :: "real \<times> real \<Rightarrow> particle \<Rightarrow> particle" where
  "demon_particle lc p =
     (let dx = px p - fst lc
      in if kinetic_energy p > 0.05 then p\<lparr>px := fst lc + \<bar>dx\<bar>\<rparr>
         else p\<lparr>px := fst lc - \<bar>dx\<bar>\<rparr>)"

fun demon_lobes ::
  "(nat \<Rightarrow> real \<times> real) \<Rightarrow> nat list \<Rightarrow> particle list list \<Rightarrow> error + particle list list" where
  "demon_lobes lcs [] pss = Inr pss"
| "demon_lobes lcs (i # is) pss =
     (if i < length pss then demon_lobes lcs is (pss[i := map (demon_particle (lcs i)) (pss ! i)])
      else Inl IndexError)"

text \<open>
  \<^verbatim>\<open>if self.children:\<close> holds for a non-empty list; for the empty list the loops over the
  children would do nothing either.
\<close>

fun maxwells_demon :: "SpinnerNode \<Rightarrow> error + SpinnerNode" where
  "maxwells_demon (SpinnerNode l c a R th pss ch ml) =
     (case demon_lobes (get_lobe_center (SpinnerNode l c a R th pss ch ml)) [0, 1, 2] pss of
        Inl e \<Rightarrow> Inl e
      | Inr pss' \<Rightarrow>
          (case ch of
             None \<Rightarrow> Inr (SpinnerNode l c a R th pss' None ml)
           | Some css \<Rightarrow>
               (case mapM (mapM maxwells_demon) css of
                  Inl e \<Rightarrow> Inl e
                | Inr css' \<Rightarrow> Inr (SpinnerNode l c a R th pss' (Some css') ml))))"

subsubsection \<open>One tick\<close>

fun update :: "real \<Rightarrow> SpinnerNode \<Rightarrow> world \<Rightarrow> error + (SpinnerNode \<times> world)" where
  "update dt (SpinnerNode l c a R th pss ch ml) w =
     (let th' = th + dt * (1 + real_of_int l * 0.3);
          self = SpinnerNode l c a R th' pss ch ml
      in case for_lobes (\<lambda>lobe_idx ps u.
                  mapM_state (update_particle lobe_idx (get_lobe_center self lobe_idx) R dt) ps u)
                [0, 1, 2] pss w of
           Inl e \<Rightarrow> Inl e
         | Inr (pss', w1) \<Rightarrow>
             (case (case ch of
                      None \<Rightarrow> Inr (None, w1)
                    | Some css \<Rightarrow>
                        (case mapM_enum (\<lambda>lobe_idx child_list u.
                                  mapM_state (\<lambda>child v.
                                      update dt (set_center (get_lobe_center self lobe_idx) child) v)
                                    child_list u)
                                0 css w1 of
                           Inl e \<Rightarrow> Inl e
                         | Inr (css', w2) \<Rightarrow> Inr (Some css', w2))) of
                Inl e \<Rightarrow> Inl e
              | Inr (ch', w2) \<Rightarrow>
                  (case maxwells_demon (SpinnerNode l c a R th' pss' ch' ml) of
                     Inl e \<Rightarrow> Inl e
                   | Inr self' \<Rightarrow> Inr (self', w2))))"

text \<open>The main loop calls \<^verbatim>\<open>update(dt)\<close> once per frame; \<open>ticks\<close> runs the frames of one tree.\<close>

fun ticks :: "real list \<Rightarrow> SpinnerNode \<Rightarrow> world \<Rightarrow> error + (SpinnerNode \<times> world)" where
  "ticks [] n w = Inr (n, w)"
| "ticks (dt # dts) n w =
     (case update dt n w of
        Inl e \<Rightarrow> Inl e
      | Inr (n', w') \<Rightarrow> ticks dts n' w')"

subsubsection \<open>Totals\<close>

lemma fold_state_cong [fundef_cong]:
  "a = b \<Longrightarrow> xs = ys \<Longrightarrow> (\<And>x s. x \<in> set ys \<Longrightarrow> f x s = g x s) \<Longrightarrow> fold f xs a = fold g ys b"
  by (induction ys arbitrary: xs a b) auto

fun total_energy :: "SpinnerNode \<Rightarrow> real" where
  "total_energy (SpinnerNode l c a R th pss ch ml) =
     (let energy = fold (\<lambda>p s. s + kinetic_energy p) (concat pss) 0
      in case ch of
           None \<Rightarrow> energy
         | Some css \<Rightarrow>
             fold (\<lambda>child_list e. fold (\<lambda>child e'. e' + total_energy child) child_list e) css energy)"

fun total_particles :: "SpinnerNode \<Rightarrow> int" where
  "total_particles (SpinnerNode l c a R th pss ch ml) =
     (let count = fold (\<lambda>arr s. s + int (length arr)) pss 0
      in case ch of
           None \<Rightarrow> count
         | Some css \<Rightarrow>
             fold (\<lambda>child_list k. fold (\<lambda>child k'. k' + total_particles child) child_list k) css count)"

subsubsection \<open>Construction\<close>

definition PARTICLES_PER_LOBE :: nat where
  "PARTICLES_PER_LOBE = 6"

definition Particle_init :: "real \<Rightarrow> real \<Rightarrow> real \<Rightarrow> real \<Rightarrow> real \<Rightarrow> particle" where
  "Particle_init x y vx0 vy0 r = \<lparr>px = x, py = y, vx = vx0, vy = vy0, radius = r\<rparr>"

text \<open>The body of the inner loop of \<^verbatim>\<open>init_particles\<close>: three random numbers, one particle.\<close>

definition new_particle :: "real \<times> real \<Rightarrow> real \<Rightarrow> world \<Rightarrow> error + (particle \<times> world)" where
  "new_particle lc R w =
     (let (u1, w1) = random_random w;
          angle = u1 * 2 * pi;
          (u2, w2) = random_random w1;
          speed = u2 * 0.3;
          (u3, w3) = random_random w2;
          r = 2 + u3 * 2;
          x = fst lc + cos angle * (R - r);
          y = snd lc + sin angle * (R - r)
      in Inr (Particle_init x y (cos angle * speed) (sin angle * speed) r, w3))"

fun set_particles :: "particle list list \<Rightarrow> SpinnerNode \<Rightarrow> SpinnerNode" where
  "set_particles pss' (SpinnerNode l c a R th pss ch ml) = SpinnerNode l c a R th pss' ch ml"

definition init_particles :: "SpinnerNode \<Rightarrow> nat \<Rightarrow> world \<Rightarrow> error + (SpinnerNode \<times> world)" where
  "init_particles self num_particles w =
     (case for_lobes (\<lambda>lobe_idx ps u.
               repeatM num_particles (new_particle (get_lobe_center self lobe_idx) (lobe_radius self)) u)
             [0, 1, 2] (particles self) w of
        Inl e \<Rightarrow> Inl e
      | Inr (pss', w') \<Rightarrow> Inr (set_particles pss' self, w'))"

text \<open>
  \<^verbatim>\<open>SpinnerNode.__init__\<close>: the children are built first, three per lobe, at the lobe centers
  for \<^verbatim>\<open>theta = 0\<close>; then the node's own particles.
\<close>

function SpinnerNode_init ::
  "int \<Rightarrow> real \<times> real \<Rightarrow> real \<Rightarrow> real \<Rightarrow> int \<Rightarrow> world \<Rightarrow> error + (SpinnerNode \<times> world)" where
  "SpinnerNode_init l c a R ml w =
     (let self = SpinnerNode l c a R 0 [[], [], []] (if l < ml then Some [[], [], []] else None) ml
      in case (if l < ml then
                 (case mapM_state (\<lambda>i u.
                           repeatM 3 (\<lambda>v. SpinnerNode_init (l + 1) (get_lobe_center self i)
                                              (a * 0.4) (R * 0.4) ml v) u)
                         [0, 1, 2] w of
                    Inl e \<Rightarrow> Inl e
                  | Inr (css, w1) \<Rightarrow> Inr (Some css, w1))
               else Inr (None, w)) of
           Inl e \<Rightarrow> Inl e
         | Inr (ch, w1) \<Rightarrow>
             init_particles (SpinnerNode l c a R 0 [[], [], []] ch ml) PARTICLES_PER_LOBE w1)"
  by pat_completeness auto
termination
  by (relation "measure (\<lambda>(l, c, a, R, ml, w). nat (ml - l))") auto

declare SpinnerNode_init.simps [simp del]

subsection \<open>Properties of trees\<close>

text \<open>A property of every node of a tree: of the node itself and of all its descendants.\<close>

fun all_nodes :: "(SpinnerNode \<Rightarrow> bool) \<Rightarrow> SpinnerNode \<Rightarrow> bool" where
  "all_nodes P (SpinnerNode l c a R th pss ch ml) =
     (P (SpinnerNode l c a R th pss ch ml) \<and>
      (case ch of
         None \<Rightarrow> True
       | Some css \<Rightarrow> \<forall>cs\<in>set css. \<forall>n\<in>set cs. all_nodes P n))"

fun count_nodes :: "SpinnerNode \<Rightarrow> nat" where
  "count_nodes (SpinnerNode l c a R th pss ch ml) =
     (case ch of
        None \<Rightarrow> 1
      | Some css \<Rightarrow> 1 + sum_list (map (\<lambda>cs. sum_list (map count_nodes cs)) css))"

fun all_particles :: "SpinnerNode \<Rightarrow> particle list" where
  "all_particles (SpinnerNode l c a R th pss ch ml) =
     concat pss @
     (case ch of
        None \<Rightarrow> []
      | Some css \<Rightarrow> concat (map (\<lambda>cs. concat (map all_particles cs)) css))"

text \<open>The distance of a particle from a point.\<close>

definition distance :: "particle \<Rightarrow> real \<times> real \<Rightarrow> real" where
  "distance p lc = hypot (px p - fst lc) (py p - snd lc)"

text \<open>
  The node has its three particle groups, and no particle of them is larger than the lobe.
\<close>

definition node_fits :: "SpinnerNode \<Rightarrow> bool" where
  "node_fits n =
     (3 \<le> length (particles n) \<and>
      (\<forall>i\<in>set [0, 1, 2]. \<forall>p\<in>set (particles n ! i). radius p \<le> lobe_radius n))"

definition node_shape :: "SpinnerNode \<Rightarrow> bool" where
  "node_shape n = (3 \<le> length (particles n))"

text \<open>Every particle of the three lobes lies inside its lobe, at the node's current angle.\<close>

definition node_contained :: "SpinnerNode \<Rightarrow> bool" where
  "node_contained n =
     (\<forall>i\<in>set [0, 1, 2]. i < length (particles n) \<longrightarrow>
        (\<forall>p\<in>set (particles n ! i).
           distance p (get_lobe_center n i) + radius p \<le> lobe_radius n))"

text \<open>
  The same for the particles that are not larger than the lobe: a larger one cannot lie
  inside, wherever it is.
\<close>

definition node_contained_fit :: "SpinnerNode \<Rightarrow> bool" where
  "node_contained_fit n =
     (\<forall>i\<in>set [0, 1, 2]. i < length (particles n) \<longrightarrow>
        (\<forall>p\<in>set (particles n ! i).
           radius p \<le> lobe_radius n \<longrightarrow>
           distance p (get_lobe_center n i) + radius p \<le> lobe_radius n))"

text \<open>Hot particles are right of the lobe center, cold ones left of it.\<close>

definition node_partitioned :: "SpinnerNode \<Rightarrow> bool" where
  "node_partitioned n =
     (\<forall>i\<in>set [0, 1, 2]. i < length (particles n) \<longrightarrow>
        (\<forall>p\<in>set (particles n ! i).
           (kinetic_energy p > 0.05 \<longrightarrow> px p \<ge> fst (get_lobe_center n i)) \<and>
           (kinetic_energy p \<le> 0.05 \<longrightarrow> px p \<le> fst (get_lobe_center n i))))"

subsection \<open>The sort as a total map\<close>

text \<open>
  \<open>on_lobes f\<close> applies \<open>f i\<close> to the group at index \<open>i\<close>, for the three lobe indices.
  \<open>demon_map\<close> is what \<^verbatim>\<open>maxwells_demon\<close> leaves behind when it returns.
\<close>

definition on_lobes :: "(nat \<Rightarrow> 'a \<Rightarrow> 'a) \<Rightarrow> 'a list \<Rightarrow> 'a list" where
  "on_lobes f pss = pss[0 := f 0 (pss ! 0), 1 := f 1 (pss ! 1), 2 := f 2 (pss ! 2)]"

fun demon_map :: "SpinnerNode \<Rightarrow> SpinnerNode" where
  "demon_map (SpinnerNode l c a R th pss ch ml) =
     SpinnerNode l c a R th
       (on_lobes (\<lambda>i. map (demon_particle (get_lobe_center (SpinnerNode l c a R th pss ch ml) i))) pss)
       (case ch of None \<Rightarrow> None | Some css \<Rightarrow> Some (map (map demon_map) css))
       ml"

subsection \<open>Example trees\<close>

text \<open>
  A root with one cold particle in lobe 0 and one child, which has one hot particle in its
  lobe 0; both particles start on the wrong side of their lobe centers.
\<close>

definition example_leaf :: SpinnerNode where
  "example_leaf =
     SpinnerNode 1 (170, 0) 68 44 0 [[\<lparr>px = 230, py = 0, vx = 1, vy = 0, radius = 3\<rparr>], [], []] None 1"

definition example_tree :: SpinnerNode where
  "example_tree =
     SpinnerNode 0 (0, 0) 170 110 0 [[\<lparr>px = 180, py = 5, vx = 0.1, vy = 0.2, radius = 2\<rparr>], [], []]
       (Some [[example_leaf], [], []]) 1"

definition example_sorted :: SpinnerNode where
  "example_sorted =
     SpinnerNode 0 (0, 0) 170 110 0 [[\<lparr>px = 160, py = 5, vx = 0.1, vy = 0.2, radius = 2\<rparr>], [], []]
       (Some [[SpinnerNode 1 (170, 0) 68 44 0 [[\<lparr>px = 246, py = 0, vx = 1, vy = 0, radius = 3\<rparr>], [], []] None 1],
              [], []]) 1"

subsection \<open>What the sort leaves unchanged\<close>

text \<open>
  \<open>particle_frame lc p q\<close>: \<open>q\<close> is \<open>p\<close> but for its \<open>x\<close>, which is as far from the lobe
  center's \<open>x\<close> as before. \<open>demon_frame n n'\<close>: the trees have the same nodes with the same
  fields, and the particles of the three lobes of every node are related by
  \<open>particle_frame\<close> for that lobe's center.
\<close>

definition particle_frame :: "real \<times> real \<Rightarrow> particle \<Rightarrow> particle \<Rightarrow> bool" where
  "particle_frame lc p q =
     (py q = py p \<and> vx q = vx p \<and> vy q = vy p \<and> radius q = radius p \<and>
      \<bar>px q - fst lc\<bar> = \<bar>px p - fst lc\<bar> \<and>
      kinetic_energy q = kinetic_energy p \<and>
      distance q lc = distance p lc)"

fun demon_frame :: "SpinnerNode \<Rightarrow> SpinnerNode \<Rightarrow> bool" where
  "demon_frame (SpinnerNode l c a R th pss ch ml) n' =
     (level n' = l \<and> center n' = c \<and> arm_length n' = a \<and> lobe_radius n' = R \<and>
      theta n' = th \<and> max_level n' = ml \<and>
      length (particles n') = length pss \<and>
      list_all (\<lambda>i. if i < 3
                     then list_all2 (particle_frame (get_lobe_center (SpinnerNode l c a R th pss ch ml) i))
                            (pss ! i) (particles n' ! i)
                     else particles n' ! i = pss ! i)
               [0..<length pss] \<and>
      (case ch of
         None \<Rightarrow> children n' = None
       | Some css \<Rightarrow>
           (case children n' of
              None \<Rightarrow> False
            | Some css' \<Rightarrow> list_all2 (list_all2 demon_frame) css css')))"

subsection \<open>The audio mapping in the words of the specification\<close>

text \<open>
  The frequency and the volume of a tone for kinetic energy \<open>E\<close>, the mono sine wave at the
  sample points of a tone of 0.05 seconds at 44100 samples per second, and the stereo tone:
  the wave scaled by \<open>1 - p\<close> on the left and by \<open>p\<close> on the right, as 16-bit samples.
\<close>

definition tone_frequency :: "real \<Rightarrow> real \<Rightarrow> real" where
  "tone_frequency f0 E = f0 + E * 300"

definition tone_volume :: "real \<Rightarrow> real" where
  "tone_volume E = min 1 (E * 8)"

definition sine_wave :: "real \<Rightarrow> real \<Rightarrow> nat \<Rightarrow> real" where
  "sine_wave f v k = sin (2 * pi * f * (real k * (0.05 / 2205))) * v"

definition stereo_tone :: "real \<Rightarrow> real \<Rightarrow> real \<Rightarrow> sound" where
  "stereo_tone f v p =
     map (\<lambda>k. (int16 (sine_wave f v k * (1 - p) * 32767), int16 (sine_wave f v k * p * 32767)))
       [0..<2205]"

subsection \<open>More example states\<close>

text \<open>
  A node whose lobe is smaller than its one particle (radius 3.5 in a lobe of radius 3). With
  random numbers that are all 0.5 the fluctuation adds nothing.
\<close>

definition oversize_tree :: SpinnerNode where
  "oversize_tree =
     SpinnerNode 0 (0, 0) 170 3 0
       [[\<lparr>px = cos 16 * 170 + 1 / 2, py = sin 16 * 170, vx = 0, vy = 0, radius = 7 / 2\<rparr>], [], []]
       None 0"

text \<open>The same node with a second particle, of radius 2, which fits into the lobe.\<close>

definition mixed_tree :: SpinnerNode where
  "mixed_tree =
     SpinnerNode 0 (0, 0) 170 3 0
       [[\<lparr>px = cos 16 * 170 + 1 / 2, py = sin 16 * 170, vx = 0, vy = 0, radius = 7 / 2\<rparr>,
         \<lparr>px = cos 16 * 170 + 2, py = sin 16 * 170, vx = 0, vy = 0, radius = 2\<rparr>],
        [], []]
       None 0"

text \<open>The world whose random numbers are all 0.5.\<close>

definition still_world :: world where
  "still_world = \<lparr>rand = (\<lambda>_. 1 / 2), played = []\<rparr>"

subsection \<open>The tick in the words of the specification\<close>

text \<open>
  The specification's step 4 applies the sort to the node's own particle groups only, the
  children applying their own during their own \<^verbatim>\<open>update\<close>. \<open>demon_own\<close> is that sort of
  one node, and \<open>update_once\<close> is the tick that ends with it; in the source the tick ends
  with \<^verbatim>\<open>maxwells_demon\<close>, which also descends into the children.
\<close>

fun demon_own :: "SpinnerNode \<Rightarrow> error + SpinnerNode" where
  "demon_own (SpinnerNode l c a R th pss ch ml) =
     (case demon_lobes (get_lobe_center (SpinnerNode l c a R th pss ch ml)) [0, 1, 2] pss of
        Inl e \<Rightarrow> Inl e
      | Inr pss' \<Rightarrow> Inr (SpinnerNode l c a R th pss' ch ml))"

fun update_once :: "real \<Rightarrow> SpinnerNode \<Rightarrow> world \<Rightarrow> error + (SpinnerNode \<times> world)" where
  "update_once dt (SpinnerNode l c a R th pss ch ml) w =
     (let th' = th + dt * (1 + real_of_int l * 0.3);
          self = SpinnerNode l c a R th' pss ch ml
      in case for_lobes (\<lambda>lobe_idx ps u.
                  mapM_state (update_particle lobe_idx (get_lobe_center self lobe_idx) R dt) ps u)
                [0, 1, 2] pss w of
           Inl e \<Rightarrow> Inl e
         | Inr (pss', w1) \<Rightarrow>
             (case (case ch of
                      None \<Rightarrow> Inr (None, w1)
                    | Some css \<Rightarrow>
                        (case mapM_enum (\<lambda>lobe_idx child_list u.
                                  mapM_state (\<lambda>child v.
                                      update_once dt (set_center (get_lobe_center self lobe_idx) child) v)
                                    child_list u)
                                0 css w1 of
                           Inl e \<Rightarrow> Inl e
                         | Inr (css', w2) \<Rightarrow> Inr (Some css', w2))) of
                Inl e \<Rightarrow> Inl e
              | Inr (ch', w2) \<Rightarrow>
                  (case demon_own (SpinnerNode l c a R th' pss' ch' ml) of
                     Inl e \<Rightarrow> Inl e
                   | Inr self' \<Rightarrow> Inr (self', w2))))"

subsection \<open>The shape of a tree\<close>

text \<open>
  \<open>node_branching\<close>: a node has children exactly when its level is below the maximum, and
  then three lists of three. \<open>same_counts\<close>: two trees have as many particles and as many
  nodes. \<open>built l ml T\<close>: \<open>T\<close> is a complete tree of a node of level \<open>l\<close> under the
  maximum level \<open>ml\<close>.
\<close>

definition node_branching :: "SpinnerNode \<Rightarrow> bool" where
  "node_branching n =
     (case children n of
        None \<Rightarrow> \<not> level n < max_level n
      | Some css \<Rightarrow> level n < max_level n \<and> length css = 3 \<and> list_all (\<lambda>cs. length cs = 3) css)"

definition same_counts :: "SpinnerNode \<Rightarrow> SpinnerNode \<Rightarrow> bool" where
  "same_counts x y = (total_particles y = total_particles x \<and> count_nodes y = count_nodes x)"

definition built :: "int \<Rightarrow> int \<Rightarrow> SpinnerNode \<Rightarrow> bool" where
  "built l ml T =
     (level T = l \<and> max_level T = ml \<and>
      count_nodes T = (\<Sum>k\<le>nat (ml - l). 9 ^ k) \<and>
      total_particles T = int (PARTICLES_PER_LOBE * 3) * int (\<Sum>k\<le>nat (ml - l). 9 ^ k) \<and>
      all_nodes node_branching T)"

section \<open>Verification\<close>

subsection \<open>The particle step\<close>

lemma hypot_nonneg: "0 \<le> hypot a b"
  by (simp add: hypot_def)

lemma hypot_axis: "hypot a 0 = \<bar>a\<bar>"
  by (simp add: hypot_def)

lemma hypot_eq_0_iff: "hypot a b = 0 \<longleftrightarrow> a = 0 \<and> b = 0"
  by (simp add: hypot_def sum_power2_eq_zero_iff)

lemma hypot_unit:
  assumes "hypot a b \<noteq> 0"
  shows "(a / hypot a b)\<^sup>2 + (b / hypot a b)\<^sup>2 = 1"
proof -
  define h where "h = hypot a b"
  have h2: "h\<^sup>2 = a\<^sup>2 + b\<^sup>2"
    by (simp add: h_def hypot_def)
  have "h\<^sup>2 \<noteq> 0"
    using assms by (simp add: h_def)
  moreover have "(a / h)\<^sup>2 + (b / h)\<^sup>2 = (a\<^sup>2 + b\<^sup>2) / h\<^sup>2"
    by (simp add: power_divide add_divide_distrib)
  ultimately show ?thesis
    unfolding h_def [symmetric] by (simp add: h2)
qed

lemma hypot_scale:
  assumes "hypot a b \<noteq> 0"
  shows "hypot (a / hypot a b * k) (b / hypot a b * k) = \<bar>k\<bar>"
proof -
  define u where "u = a / hypot a b"
  define v where "v = b / hypot a b"
  have "(u * k)\<^sup>2 + (v * k)\<^sup>2 = (u\<^sup>2 + v\<^sup>2) * k\<^sup>2"
    by (simp add: power_mult_distrib distrib_right)
  also have "\<dots> = k\<^sup>2"
    using hypot_unit [OF assms] by (simp add: u_def v_def)
  finally show ?thesis
    unfolding u_def v_def by (simp add: hypot_def)
qed

lemma collide_ok:
  assumes "radius p \<le> R"
  shows "\<exists>q. collide p c R = Inr q"
proof (cases "hypot (px p - fst c) (py p - snd c) + radius p > R")
  case True
  with assms have "hypot (px p - fst c) (py p - snd c) \<noteq> 0" by linarith
  with True show ?thesis by (simp add: collide_def Let_def)
next
  case False
  then show ?thesis by (simp add: collide_def Let_def)
qed

text \<open>
  Outside that case the division can fail: a particle larger than the lobe that lands exactly
  on the center raises \<^verbatim>\<open>ZeroDivisionError\<close>.
\<close>

lemma collide_at_center:
  assumes "px p = fst c" and "py p = snd c" and "R < radius p"
  shows "collide p c R = Inl ZeroDivisionError"
  using assms by (simp add: collide_def hypot_axis Let_def)

lemma radius_advance: "radius (advance p dt) = radius p"
  by (simp add: advance_def)

lemma fluctuate_position:
  "px (fst (fluctuate p w)) = px p \<and> py (fst (fluctuate p w)) = py p \<and>
   radius (fst (fluctuate p w)) = radius p"
  by (simp add: fluctuate_def random_random_def Let_def split: prod.splits)

lemma fluctuate_velocity:
  "vx (fst (fluctuate p w)) = vx p + (rand w 0 - 0.5) * 0.01 \<and>
   vy (fst (fluctuate p w)) = vy p + (rand w 1 - 0.5) * 0.01"
  by (simp add: fluctuate_def random_random_def Let_def split: prod.splits)

lemma reflect_normal:
  fixes a b nx ny :: real
  assumes "nx\<^sup>2 + ny\<^sup>2 = 1"
  shows "(a - 2 * (a * nx + b * ny) * nx) * nx + (b - 2 * (a * nx + b * ny) * ny) * ny
           = - (a * nx + b * ny)"
proof -
  have "(a - 2 * (a * nx + b * ny) * nx) * nx + (b - 2 * (a * nx + b * ny) * ny) * ny
          = (a * nx + b * ny) * (1 - 2 * (nx\<^sup>2 + ny\<^sup>2))"
    by (simp add: algebra_simps power2_eq_square)
  then show ?thesis using assms by simp
qed

text \<open>
  Claim C4. \<^verbatim>\<open>Particle.update(center, lobe_radius, dt)\<close> never divides by zero when the
  particle's radius does not exceed \<open>lobe_radius\<close>: the collision check returns a particle
  and the whole call returns, also when the advanced position is exactly the lobe center.
\<close>

theorem Particle_update_no_zero_division:
  "radius p \<le> R \<Longrightarrow>
     (\<exists>q. collide (advance p dt) c R = Inr q) \<and>
     (\<exists>q w'. Particle_update p c R dt w = Inr (q, w'))"
  using collide_ok [of "advance p dt" R c]
  by (auto simp: Particle_update_def radius_advance fluctuate_def split: prod.splits) 

theorem Particle_update_no_zero_division_witness:
  "(3::real) \<le> 110 \<and>
   hypot (px (advance \<lparr>px = 600, py = 400, vx = 0, vy = 0, radius = 3\<rparr> 16) - 600)
         (py (advance \<lparr>px = 600, py = 400, vx = 0, vy = 0, radius = 3\<rparr> 16) - 400) = 0 \<and>
   (\<exists>q w'. Particle_update \<lparr>px = 600, py = 400, vx = 0, vy = 0, radius = 3\<rparr> (600, 400) 110 16
               \<lparr>rand = (\<lambda>_. 1 / 2), played = []\<rparr> = Inr (q, w'))"
  using Particle_update_no_zero_division
          [of "\<lparr>px = 600, py = 400, vx = 0, vy = 0, radius = 3\<rparr>" 110 16 "(600, 400)"
              "\<lparr>rand = (\<lambda>_. 1 / 2), played = []\<rparr>"]
  by (simp add: advance_def hypot_axis)

text \<open>
  Claim C5. In \<^verbatim>\<open>Particle.update\<close> the position first advances by velocity times \<open>dt\<close>.
  With \<open>d\<close> the new distance from the center and \<open>n = (nx, ny)\<close> the outward unit normal:
  if \<open>d + radius > lobe_radius\<close> the velocity becomes \<open>v - 2(v\<cdot>n)n\<close>, so its normal
  component is negated, and the position is set to \<open>center + (lobe_radius - radius) n\<close>;
  otherwise the collision check leaves the advanced particle as it is. The random
  fluctuation that follows changes the velocity only.
\<close>

theorem Particle_update_reflects:
  assumes q: "q = advance p dt"
    and d: "d = hypot (px q - fst c) (py q - snd c)"
    and nx: "nx = (px q - fst c) / d"
    and ny: "ny = (py q - snd c) / d"
  shows "px q = px p + vx p * dt \<and> py q = py p + vy p * dt \<and> vx q = vx p \<and> vy q = vy p \<and>
         (d + radius p > R \<and> d \<noteq> 0 \<longrightarrow>
            (\<exists>p'. collide q c R = Inr p' \<and>
                  nx\<^sup>2 + ny\<^sup>2 = 1 \<and>
                  vx p' = vx p - 2 * (vx p * nx + vy p * ny) * nx \<and>
                  vy p' = vy p - 2 * (vx p * nx + vy p * ny) * ny \<and>
                  vx p' * nx + vy p' * ny = - (vx p * nx + vy p * ny) \<and>
                  px p' = fst c + nx * (R - radius p) \<and>
                  py p' = snd c + ny * (R - radius p) \<and>
                  Particle_update p c R dt w = Inr (fluctuate p' w) \<and>
                  px (fst (fluctuate p' w)) = px p' \<and> py (fst (fluctuate p' w)) = py p')) \<and>
         (\<not> d + radius p > R \<longrightarrow>
            collide q c R = Inr q \<and> Particle_update p c R dt w = Inr (fluctuate q w) \<and>
            px (fst (fluctuate q w)) = px q \<and> py (fst (fluctuate q w)) = py q)"
proof -
  have adv: "px q = px p + vx p * dt \<and> py q = py p + vy p * dt \<and> vx q = vx p \<and> vy q = vy p"
    by (simp add: q advance_def)
  have rq: "radius q = radius p"
    by (simp add: q advance_def)
  have hit: "\<exists>p'. collide q c R = Inr p' \<and>
                  nx\<^sup>2 + ny\<^sup>2 = 1 \<and>
                  vx p' = vx p - 2 * (vx p * nx + vy p * ny) * nx \<and>
                  vy p' = vy p - 2 * (vx p * nx + vy p * ny) * ny \<and>
                  vx p' * nx + vy p' * ny = - (vx p * nx + vy p * ny) \<and>
                  px p' = fst c + nx * (R - radius p) \<and>
                  py p' = snd c + ny * (R - radius p) \<and>
                  Particle_update p c R dt w = Inr (fluctuate p' w) \<and>
                  px (fst (fluctuate p' w)) = px p' \<and> py (fst (fluctuate p' w)) = py p'"
    if over: "d + radius p > R" and nz: "d \<noteq> 0"
  proof -
    define p' where "p' = q\<lparr>vx := vx q - 2 * (vx q * nx + vy q * ny) * nx,
                           vy := vy q - 2 * (vx q * nx + vy q * ny) * ny,
                           px := fst c + nx * (R - radius q),
                           py := snd c + ny * (R - radius q)\<rparr>"
    have col: "collide q c R = Inr p'"
      using over nz by (simp add: collide_def Let_def d [symmetric] nx [symmetric] ny [symmetric] rq p'_def)
    have unit: "nx\<^sup>2 + ny\<^sup>2 = 1"
      using hypot_unit [of "px q - fst c" "py q - snd c"] nz by (simp add: d nx ny)
    have v: "vx p' = vx p - 2 * (vx p * nx + vy p * ny) * nx"
            "vy p' = vy p - 2 * (vx p * nx + vy p * ny) * ny"
      by (simp_all add: p'_def adv)
    have neg: "vx p' * nx + vy p' * ny = - (vx p * nx + vy p * ny)"
      unfolding v by (rule reflect_normal [OF unit])
    have pos: "px p' = fst c + nx * (R - radius p)" "py p' = snd c + ny * (R - radius p)"
      by (simp_all add: p'_def rq)
    have upd: "Particle_update p c R dt w = Inr (fluctuate p' w)"
      using col by (simp add: Particle_update_def q)
    show ?thesis
      using col unit v neg pos upd fluctuate_position [of p' w] by blast
  qed
  have miss: "collide q c R = Inr q \<and> Particle_update p c R dt w = Inr (fluctuate q w) \<and>
            px (fst (fluctuate q w)) = px q \<and> py (fst (fluctuate q w)) = py q"
    if "\<not> d + radius p > R"
  proof -
    have col: "collide q c R = Inr q"
      using that by (simp add: collide_def Let_def d [symmetric] rq)
    then have "Particle_update p c R dt w = Inr (fluctuate q w)"
      by (simp add: Particle_update_def q [symmetric])
    with col show ?thesis
      using fluctuate_position [of q w] by simp
  qed
  show ?thesis
    using adv hit miss by blast
qed

theorem Particle_update_reflects_witness:
  "(\<exists>p'. collide (advance \<lparr>px = 9, py = 0, vx = 1, vy = 0, radius = 2\<rparr> 1) (0, 0) 10 = Inr p' \<and>
         vx p' = - 1 \<and> vy p' = 0 \<and> px p' = 8 \<and> py p' = 0) \<and>
   collide (advance \<lparr>px = 1, py = 0, vx = 1, vy = 0, radius = 2\<rparr> 1) (0, 0) 10
     = Inr \<lparr>px = 2, py = 0, vx = 1, vy = 0, radius = 2\<rparr>"
proof -
  let ?p = "\<lparr>px = 9, py = 0, vx = 1, vy = 0, radius = 2\<rparr>"
  let ?r = "\<lparr>px = 1, py = 0, vx = 1, vy = 0, radius = 2\<rparr>"
  let ?w = "\<lparr>rand = (\<lambda>_. 1 / 2), played = []\<rparr>"
  have a: "advance ?p 1 = \<lparr>px = 10, py = 0, vx = 1, vy = 0, radius = 2\<rparr>"
    by (simp add: advance_def)
  have b: "advance ?r 1 = \<lparr>px = 2, py = 0, vx = 1, vy = 0, radius = 2\<rparr>"
    by (simp add: advance_def)
  have d1: "(10::real) = hypot (px (advance ?p 1) - fst (0::real, 0::real)) (py (advance ?p 1) - snd (0::real, 0::real))"
    by (simp add: a hypot_axis)
  have n1: "(1::real) = (px (advance ?p 1) - fst (0::real, 0::real)) / 10"
           "(0::real) = (py (advance ?p 1) - snd (0::real, 0::real)) / 10"
    by (simp_all add: a)
  have d2: "(2::real) = hypot (px (advance ?r 1) - fst (0::real, 0::real)) (py (advance ?r 1) - snd (0::real, 0::real))"
    by (simp add: b hypot_axis)
  have n2: "(1::real) = (px (advance ?r 1) - fst (0::real, 0::real)) / 2"
           "(0::real) = (py (advance ?r 1) - snd (0::real, 0::real)) / 2"
    by (simp_all add: b)
  have 1: "\<exists>p'. collide (advance ?p 1) (0, 0) 10 = Inr p' \<and> vx p' = - 1 \<and> vy p' = 0 \<and> px p' = 8 \<and> py p' = 0"
    using Particle_update_reflects [OF refl d1 n1, of 10 ?w]
    by simp blast
  have 2: "collide (advance ?r 1) (0, 0) 10 = Inr \<lparr>px = 2, py = 0, vx = 1, vy = 0, radius = 2\<rparr>"
    using Particle_update_reflects [OF refl d2 n2, of 10 ?w]
    by (simp add: b)
  show ?thesis using 1 2 by simp
qed

subsection \<open>Maxwell's Demon\<close>

lemma length_on_lobes [simp]: "length (on_lobes f pss) = length pss"
  by (simp add: on_lobes_def)

lemma less_3_cases: "(i::nat) < 3 \<Longrightarrow> i = 0 \<or> i = 1 \<or> i = 2"
  by arith

lemma nth_on_lobes:
  "i < length pss \<Longrightarrow> on_lobes f pss ! i = (if i < 3 then f i (pss ! i) else pss ! i)"
proof (cases "i < 3")
  case True
  assume "i < length pss"
  with less_3_cases [OF True] show ?thesis
    by (auto simp: on_lobes_def nth_list_update)
next
  case False
  assume "i < length pss"
  with False show ?thesis
    by (simp add: on_lobes_def nth_list_update)
qed

lemma on_lobes_idem:
  assumes "\<And>i ps. f i (f i ps) = f i ps"
  shows "on_lobes f (on_lobes f pss) = on_lobes f pss"
  by (rule nth_equalityI) (simp_all add: nth_on_lobes assms)

lemma get_lobe_center_fields:
  "get_lobe_center (SpinnerNode l c a R th pss ch ml) = get_lobe_center (SpinnerNode l' c a R' th pss' ch' ml')"
  by (rule ext) (simp add: get_lobe_center_def)

lemma mapM_total:
  "mapM (\<lambda>x. if Q x then Inr (g x) else Inl IndexError) xs =
     (if \<forall>x\<in>set xs. Q x then Inr (map g xs) else Inl IndexError)"
  by (induction xs) auto

lemma demon_lobes_three:
  "demon_lobes lcs [0, 1, 2] pss =
     (if 3 \<le> length pss
      then Inr (on_lobes (\<lambda>i. map (demon_particle (lcs i))) pss)
      else Inl IndexError)"
  by (auto simp: on_lobes_def)

lemma node_shape_simp:
  "node_shape (SpinnerNode l c a R th pss ch ml) = (3 \<le> length pss)"
  by (simp add: node_shape_def)

lemma maxwells_demon_eq:
  "maxwells_demon n = (if all_nodes node_shape n then Inr (demon_map n) else Inl IndexError)"
proof (induction n rule: demon_map.induct)
  case (1 l c a R th pss ch ml)
  show ?case
  proof (cases ch)
    case None
    then show ?thesis
      by (simp only: maxwells_demon.simps demon_lobes_three) (simp add: node_shape_simp)
  next
    case (Some css)
    have inner: "mapM maxwells_demon cs =
        (if \<forall>n\<in>set cs. all_nodes node_shape n then Inr (map demon_map cs) else Inl IndexError)"
      if "cs \<in> set css" for cs
    proof -
      have "mapM maxwells_demon cs =
          mapM (\<lambda>n. if all_nodes node_shape n then Inr (demon_map n) else Inl IndexError) cs"
        using 1 Some that by (intro mapM_cong) auto
      then show ?thesis by (simp add: mapM_total)
    qed
    have "mapM (mapM maxwells_demon) css =
        mapM (\<lambda>cs. if \<forall>n\<in>set cs. all_nodes node_shape n then Inr (map demon_map cs) else Inl IndexError) css"
      using inner by (intro mapM_cong) auto
    then have outer: "mapM (mapM maxwells_demon) css =
        (if \<forall>cs\<in>set css. \<forall>n\<in>set cs. all_nodes node_shape n
         then Inr (map (map demon_map) css) else Inl IndexError)"
      by (simp add: mapM_total)
    show ?thesis
      unfolding Some
      by (simp only: maxwells_demon.simps demon_lobes_three) (simp add: node_shape_simp outer)
  qed
qed


lemma demon_particle_fields:
  "py (demon_particle lc p) = py p" "vx (demon_particle lc p) = vx p"
  "vy (demon_particle lc p) = vy p" "radius (demon_particle lc p) = radius p"
  "kinetic_energy (demon_particle lc p) = kinetic_energy p"
  by (simp_all add: demon_particle_def kinetic_energy_def Let_def)

lemma demon_particle_dx: "\<bar>px (demon_particle lc p) - fst lc\<bar> = \<bar>px p - fst lc\<bar>"
  by (simp add: demon_particle_def Let_def)

lemma hypot_abs: "hypot a b = hypot \<bar>a\<bar> b"
  by (simp add: hypot_def)

lemma demon_particle_distance: "distance (demon_particle lc p) lc = distance p lc"
proof -
  have "hypot (px (demon_particle lc p) - fst lc) (py p - snd lc)
          = hypot \<bar>px (demon_particle lc p) - fst lc\<bar> (py p - snd lc)"
    by (rule hypot_abs)
  also have "\<dots> = hypot \<bar>px p - fst lc\<bar> (py p - snd lc)"
    by (simp only: demon_particle_dx)
  also have "\<dots> = hypot (px p - fst lc) (py p - snd lc)"
    by (rule hypot_abs [symmetric])
  finally show ?thesis
    by (simp add: distance_def demon_particle_fields)
qed

lemma demon_particle_idem: "demon_particle lc (demon_particle lc p) = demon_particle lc p"
  by (simp add: demon_particle_def Let_def kinetic_energy_def)

lemma demon_particle_side:
  "(kinetic_energy p > 0.05 \<longrightarrow> px (demon_particle lc p) \<ge> fst lc) \<and>
   (kinetic_energy p \<le> 0.05 \<longrightarrow> px (demon_particle lc p) \<le> fst lc)"
  by (simp add: demon_particle_def Let_def)

lemma get_lobe_center_node:
  "get_lobe_center (SpinnerNode l c a R th pss ch ml) i =
     (fst c + cos (real i * 2 * pi / 3 + th) * a, snd c + sin (real i * 2 * pi / 3 + th) * a)"
  by (simp add: get_lobe_center_def Let_def)

lemma on_lobes_demon_idem:
  "on_lobes (\<lambda>i. map (demon_particle (g i))) (on_lobes (\<lambda>i. map (demon_particle (g i))) pss)
     = on_lobes (\<lambda>i. map (demon_particle (g i))) pss"
  by (rule on_lobes_idem) (simp add: demon_particle_idem)

lemma demon_map_idem: "demon_map (demon_map n) = demon_map n"
proof (induction n rule: demon_map.induct)
  case (1 l c a R th pss ch ml)
  show ?case
  proof (cases ch)
    case None
    then show ?thesis by (simp add: get_lobe_center_node on_lobes_demon_idem)
  next
    case (Some css)
    have "map (map (\<lambda>n. demon_map (demon_map n))) css = map (map demon_map) css"
      using 1 Some by (intro map_cong refl) auto
    then show ?thesis using Some by (simp add: get_lobe_center_node on_lobes_demon_idem comp_def)
  qed
qed

lemma demon_map_shape: "all_nodes node_shape (demon_map n) = all_nodes node_shape n"
proof (induction n rule: demon_map.induct)
  case (1 l c a R th pss ch ml)
  show ?case
  proof (cases ch)
    case None
    then show ?thesis by (simp add: node_shape_simp)
  next
    case (Some css)
    then show ?thesis using 1 by (simp add: node_shape_simp)
  qed
qed

lemma node_partitioned_on_lobes:
  assumes "\<And>i. get_lobe_center (SpinnerNode l c a R th pss' ch' ml) i = g i"
  shows "node_partitioned (SpinnerNode l c a R th (on_lobes (\<lambda>i. map (demon_particle (g i))) pss) ch' ml)"
proof -
  have same: "get_lobe_center (SpinnerNode l c a R th (on_lobes (\<lambda>i. map (demon_particle (g i))) pss) ch' ml) i = g i" for i
    using assms [of i] by (simp add: get_lobe_center_node)
  have part: "(0.05 < kinetic_energy q \<longrightarrow> fst (g i) \<le> px q) \<and> (kinetic_energy q \<le> 0.05 \<longrightarrow> px q \<le> fst (g i))"
    if "i < 3" "i < length pss" "q \<in> set (on_lobes (\<lambda>i. map (demon_particle (g i))) pss ! i)" for i q
  proof -
    from that obtain p where "q = demon_particle (g i) p"
      by (auto simp: nth_on_lobes)
    then show ?thesis
      using demon_particle_side [of p "g i"] by (simp add: demon_particle_fields)
  qed
  show ?thesis
    unfolding node_partitioned_def
  proof (intro ballI impI)
    fix i p
    assume i: "i \<in> set [0, 1, 2::nat]"
      and len: "i < length (particles (SpinnerNode l c a R th (on_lobes (\<lambda>i. map (demon_particle (g i))) pss) ch' ml))"
      and p: "p \<in> set (particles (SpinnerNode l c a R th (on_lobes (\<lambda>i. map (demon_particle (g i))) pss) ch' ml) ! i)"
    from i have "i < 3" by auto
    with len p part [of i p] show
      "(0.05 < kinetic_energy p \<longrightarrow>
          fst (get_lobe_center (SpinnerNode l c a R th (on_lobes (\<lambda>i. map (demon_particle (g i))) pss) ch' ml) i) \<le> px p) \<and>
       (kinetic_energy p \<le> 0.05 \<longrightarrow>
          px p \<le> fst (get_lobe_center (SpinnerNode l c a R th (on_lobes (\<lambda>i. map (demon_particle (g i))) pss) ch' ml) i))"
      by (simp add: same)
  qed
qed

lemma demon_map_partitioned: "all_nodes node_partitioned (demon_map n)"
proof (induction n rule: demon_map.induct)
  case (1 l c a R th pss ch ml)
  have here: "node_partitioned (SpinnerNode l c a R th
      (on_lobes (\<lambda>i. map (demon_particle (get_lobe_center (SpinnerNode l c a R th pss ch ml) i))) pss) ch' ml)"
    for ch'
    by (rule node_partitioned_on_lobes) (simp add: get_lobe_center_node)
  show ?case
  proof (cases ch)
    case None
    then show ?thesis using here by simp
  next
    case (Some css)
    then show ?thesis using here 1 by simp
  qed
qed

lemma example_tree_sorted: "maxwells_demon example_tree = Inr example_sorted"
  by (simp add: example_tree_def example_leaf_def example_sorted_def get_lobe_center_def
        demon_particle_def kinetic_energy_def power2_eq_square)

lemma example_sorted_shape: "all_nodes node_shape example_sorted"
  by (simp add: example_sorted_def node_shape_def)

lemma example_tree_shape: "all_nodes node_shape example_tree"
  by (simp add: example_tree_def example_leaf_def node_shape_def)

text \<open>
  Claim C10. \<^verbatim>\<open>maxwells_demon()\<close> is idempotent: calling it a second time on the state the
  first call left (same \<open>theta\<close>, same centers) gives that state again; and when the first
  call raises, so does the sequence.
\<close>

theorem maxwells_demon_idempotent:
  "(case maxwells_demon n of Inl e \<Rightarrow> Inl e | Inr n' \<Rightarrow> maxwells_demon n') = maxwells_demon n"
  by (simp add: maxwells_demon_eq demon_map_shape demon_map_idem)

theorem maxwells_demon_idempotent_witness:
  "maxwells_demon example_tree = Inr example_sorted \<and>
   maxwells_demon example_sorted = Inr example_sorted"
  using maxwells_demon_idempotent [of example_tree]
  by (simp add: example_tree_sorted)

text \<open>
  Claim C2. After \<^verbatim>\<open>maxwells_demon()\<close> has run on a tree, in every node and every lobe each
  particle with kinetic energy above 0.05 has \<open>x\<close> at or right of the lobe center, and each
  particle with kinetic energy at most 0.05 has \<open>x\<close> at or left of it, the lobe center being
  the one for the node's current \<open>theta\<close>. The call returns whenever every node has its
  three particle groups.
\<close>

theorem maxwells_demon_partitions:
  "(all_nodes node_shape n \<longrightarrow> (\<exists>n'. maxwells_demon n = Inr n')) \<and>
   (\<forall>n'. maxwells_demon n = Inr n' \<longrightarrow> all_nodes node_partitioned n')"
  by (auto simp: maxwells_demon_eq demon_map_partitioned split: if_splits)

theorem maxwells_demon_partitions_witness:
  "all_nodes node_shape example_tree \<and>
   maxwells_demon example_tree = Inr example_sorted \<and>
   all_nodes node_partitioned example_sorted"
  using maxwells_demon_partitions [of example_tree]
  by (simp add: example_tree_sorted example_tree_shape)

subsection \<open>Totals and the frame of the sort\<close>

lemma fold_add_sum_list:
  fixes a :: "'a::comm_monoid_add"
  shows "fold (\<lambda>x s. s + f x) xs a = a + sum_list (map f xs)"
  by (induction xs arbitrary: a) (simp_all add: add.assoc)

lemma fold_fold_add_sum_list:
  fixes a :: "'a::comm_monoid_add"
  shows "fold (\<lambda>xs s. fold (\<lambda>x s'. s' + f x) xs s) xss a
           = a + sum_list (map (\<lambda>xs. sum_list (map f xs)) xss)"
  by (induction xss arbitrary: a) (simp_all add: fold_add_sum_list add.assoc)

lemma total_energy_sum:
  "total_energy (SpinnerNode l c a R th pss ch ml) =
     sum_list (map kinetic_energy (concat pss)) +
     (case ch of
        None \<Rightarrow> 0
      | Some css \<Rightarrow> sum_list (map (\<lambda>cs. sum_list (map total_energy cs)) css))"
  by (simp add: fold_add_sum_list fold_fold_add_sum_list split: option.splits)

lemma total_particles_sum:
  "total_particles (SpinnerNode l c a R th pss ch ml) =
     sum_list (map (\<lambda>arr. int (length arr)) pss) +
     (case ch of
        None \<Rightarrow> 0
      | Some css \<Rightarrow> sum_list (map (\<lambda>cs. sum_list (map total_particles cs)) css))"
  by (simp add: fold_add_sum_list fold_fold_add_sum_list split: option.splits)

lemma sum_list_concat_map:
  fixes f :: "'a \<Rightarrow> 'b::comm_monoid_add"
  shows "sum_list (map f (concat xss)) = sum_list (map (\<lambda>xs. sum_list (map f xs)) xss)"
  by (induction xss) simp_all

lemma kinetic_energy_nonneg: "0 \<le> kinetic_energy p"
  by (simp add: kinetic_energy_def)

lemma total_energy_all_particles:
  "total_energy n = sum_list (map kinetic_energy (all_particles n))"
proof (induction n rule: all_particles.induct)
  case (1 l c a R th pss ch ml)
  show ?case
  proof (cases ch)
    case None
    then show ?thesis by (simp add: total_energy_sum del: total_energy.simps)
  next
    case (Some css)
    have "map (\<lambda>cs. sum_list (map total_energy cs)) css
            = map (\<lambda>cs. sum_list (map (\<lambda>n. sum_list (map kinetic_energy (all_particles n))) cs)) css"
      using 1 Some by (intro map_cong refl arg_cong [where f = sum_list]) auto
    then have "sum_list (map (\<lambda>cs. sum_list (map total_energy cs)) css)
            = sum_list (map (\<lambda>cs. sum_list (map (\<lambda>n. sum_list (map kinetic_energy (all_particles n))) cs)) css)"
      by (rule arg_cong)
    then show ?thesis
      unfolding Some
      by (simp add: total_energy_sum sum_list_concat_map comp_def del: total_energy.simps)
  qed
qed

text \<open>
  Claim C7. \<^verbatim>\<open>total_energy()\<close> returns the sum of \<open>(vx\<^sup>2 + vy\<^sup>2) / 2\<close> over all particles of the
  node and of all its descendants; every summand is at least 0, and so is the total.
\<close>

theorem total_energy_is_sum:
  "total_energy n = (\<Sum>p\<leftarrow>all_particles n. 0.5 * ((vx p)\<^sup>2 + (vy p)\<^sup>2)) \<and>
   (\<forall>p\<in>set (all_particles n). 0 \<le> kinetic_energy p \<and> kinetic_energy p = 0.5 * ((vx p)\<^sup>2 + (vy p)\<^sup>2)) \<and>
   0 \<le> total_energy n"
proof -
  have 1: "total_energy n = (\<Sum>p\<leftarrow>all_particles n. 0.5 * ((vx p)\<^sup>2 + (vy p)\<^sup>2))"
    using total_energy_all_particles [of n] by (simp add: kinetic_energy_def [abs_def])
  have "0 \<le> sum_list (map kinetic_energy (all_particles n))"
    by (rule sum_list_nonneg) (auto simp: kinetic_energy_nonneg)
  then have 3: "0 \<le> total_energy n"
    by (simp add: total_energy_all_particles)
  show ?thesis
    using 1 3 by (simp add: kinetic_energy_nonneg) (simp add: kinetic_energy_def)
qed

lemma example_tree_particles:
  "all_particles example_tree =
     [\<lparr>px = 180, py = 5, vx = 0.1, vy = 0.2, radius = 2\<rparr>,
      \<lparr>px = 230, py = 0, vx = 1, vy = 0, radius = 3\<rparr>]"
  by (simp add: example_tree_def example_leaf_def)

theorem total_energy_is_sum_witness:
  "total_energy example_tree = 0.525 \<and>
   all_particles example_tree =
     [\<lparr>px = 180, py = 5, vx = 0.1, vy = 0.2, radius = 2\<rparr>,
      \<lparr>px = 230, py = 0, vx = 1, vy = 0, radius = 3\<rparr>] \<and>
   (0::real) \<le> 0.525"
  using total_energy_is_sum [of example_tree]
  by (simp add: example_tree_particles power2_eq_square)

lemma demon_particle_frame: "particle_frame lc p (demon_particle lc p)"
  by (simp add: particle_frame_def demon_particle_fields demon_particle_dx demon_particle_distance)

lemma list_all2_map_same: "list_all2 P xs (map f xs) \<longleftrightarrow> (\<forall>x\<in>set xs. P x (f x))"
  by (simp add: list_all2_map2 list_all2_same)

lemma sum_list_on_lobes:
  assumes "\<And>i ps. h (f i ps) = h ps"
  shows "map h (on_lobes f pss) = map h pss"
  by (rule nth_equalityI) (simp_all add: nth_on_lobes assms)

lemma demon_map_energy: "total_energy (demon_map n) = total_energy n"
proof (induction n rule: demon_map.induct)
  case (1 l c a R th pss ch ml)
  have groups: "map (\<lambda>ps. sum_list (map kinetic_energy ps)) (on_lobes (\<lambda>i. map (demon_particle (g i))) pss)
        = map (\<lambda>ps. sum_list (map kinetic_energy ps)) pss" for g
    by (rule sum_list_on_lobes) (simp add: comp_def demon_particle_fields)
  show ?case
  proof (cases ch)
    case None
    then show ?thesis
      by (simp add: total_energy_sum sum_list_concat_map groups del: total_energy.simps)
  next
    case (Some css)
    have "map (\<lambda>cs. sum_list (map (\<lambda>n. total_energy (demon_map n)) cs)) css
            = map (\<lambda>cs. sum_list (map total_energy cs)) css"
      using 1 Some by (intro map_cong refl arg_cong [where f = sum_list]) auto
    then have "sum_list (map (\<lambda>cs. sum_list (map (\<lambda>n. total_energy (demon_map n)) cs)) css)
            = sum_list (map (\<lambda>cs. sum_list (map total_energy cs)) css)"
      by (rule arg_cong)
    then show ?thesis
      unfolding Some
      by (simp add: total_energy_sum sum_list_concat_map groups comp_def del: total_energy.simps)
  qed
qed

lemma demon_map_frame: "demon_frame n (demon_map n)"
proof (induction n rule: demon_map.induct)
  case (1 l c a R th pss ch ml)
  show ?case
  proof (cases ch)
    case None
    show ?thesis unfolding None
      by (simp add: list_all_iff nth_on_lobes list_all2_map_same demon_particle_frame)
  next
    case (Some css)
    have "list_all2 (list_all2 demon_frame) css (map (map demon_map) css)"
      using 1 Some by (simp add: list_all2_map_same)
    then show ?thesis unfolding Some
      by (simp add: list_all_iff nth_on_lobes list_all2_map_same demon_particle_frame)
  qed
qed

text \<open>
  Claim C9. \<^verbatim>\<open>maxwells_demon()\<close> changes only the \<open>x\<close> of particles and keeps its distance
  to the lobe center's \<open>x\<close>: \<open>y\<close>, \<open>vx\<close>, \<open>vy\<close>, the radius, the kinetic energy and the
  distance from the lobe center of every particle, every field of every node, and
  \<^verbatim>\<open>total_energy()\<close> are the same after the call.
\<close>

theorem maxwells_demon_frame:
  "(all_nodes node_shape n \<longrightarrow> (\<exists>n'. maxwells_demon n = Inr n')) \<and>
   (\<forall>n'. maxwells_demon n = Inr n' \<longrightarrow> demon_frame n n' \<and> total_energy n' = total_energy n)"
  by (auto simp: maxwells_demon_eq demon_map_frame demon_map_energy split: if_splits)

theorem maxwells_demon_frame_witness:
  "all_nodes node_shape example_tree \<and>
   maxwells_demon example_tree = Inr example_sorted \<and>
   demon_frame example_tree example_sorted \<and>
   total_energy example_sorted = total_energy example_tree"
  using maxwells_demon_frame [of example_tree]
  by (simp add: example_tree_sorted example_tree_shape)

subsection \<open>Tones\<close>

lemma n_samples: "nat (trunc (SAMPLE_RATE * DURATION)) = 2205"
  by (simp add: trunc_def SAMPLE_RATE_def DURATION_def)

lemma generate_tone_stereo: "generate_tone f v p = stereo_tone f v p"
  unfolding generate_tone_def Let_def n_samples
  by (simp add: linspace_def stereo_tone_def sine_wave_def DURATION_def zip_map_map
        zip_same_conv_map comp_def)

lemma update_particle_played:
  assumes "update_particle i lc R dt p w = Inr (q, w')"
  shows "i < length BASE_FREQUENCIES \<and>
         played w' = played w @ [stereo_tone (tone_frequency (BASE_FREQUENCIES ! i) (kinetic_energy q))
                                   (tone_volume (kinetic_energy q)) (real i / 2)]"
proof -
  from assms obtain w1 where pu: "Particle_update p lc R dt w = Inr (q, w1)"
    and i: "i < length BASE_FREQUENCIES"
    and w': "w' = play (generate_tone (BASE_FREQUENCIES ! i + kinetic_energy q * 300)
                     (min 1 (kinetic_energy q * 8)) (real i / 2)) w1"
    by (auto simp: update_particle_def Let_def split: sum.splits if_splits)
  from pu have "played w1 = played w"
    by (auto simp: Particle_update_def fluctuate_def random_random_def Let_def split: sum.splits prod.splits)
  with i w' show ?thesis
    by (simp add: play_def generate_tone_stereo tone_frequency_def tone_volume_def)
qed

lemma update_group_played:
  "mapM_state (update_particle i lc R dt) ps w = Inr (qs, w') \<Longrightarrow>
     played w' = played w @
       map (\<lambda>q. stereo_tone (tone_frequency (BASE_FREQUENCIES ! i) (kinetic_energy q))
                  (tone_volume (kinetic_energy q)) (real i / 2)) qs"
proof (induction ps arbitrary: w qs)
  case Nil
  then show ?case by simp
next
  case (Cons p ps)
  from Cons.prems obtain q w1 qs' where
    1: "update_particle i lc R dt p w = Inr (q, w1)" and
    2: "mapM_state (update_particle i lc R dt) ps w1 = Inr (qs', w')" and
    3: "qs = q # qs'"
    by (auto split: sum.splits prod.splits)
  show ?case
    using update_particle_played [OF 1] Cons.IH [OF 2] 3 by simp
qed

text \<open>
  Claim C8. The tone of a particle of kinetic energy \<open>E\<close> in a lobe with base frequency
  \<open>f0\<close> and pan \<open>p\<close> has frequency \<open>f0 + E * 300\<close> and volume \<open>min 1 (E * 8)\<close>, and its
  left and right channels are the mono sine wave scaled by \<open>1 - p\<close> and \<open>p\<close>: the sound
  that \<^verbatim>\<open>generate_tone\<close> makes is that stereo tone, and the particle loop of
  \<^verbatim>\<open>update\<close> plays one such tone per particle, in order. A particle of kinetic energy 0.1
  in lobe 0 (base frequency 220) plays the tone of 250 Hz at volume 0.8.
\<close>

theorem audio_mapping:
  "generate_tone f v p = stereo_tone f v p \<and>
   length (stereo_tone f v p) = 2205 \<and>
   (mapM_state (update_particle i lc R dt) ps w = Inr (qs, w') \<longrightarrow>
      played w' = played w @
        map (\<lambda>q. stereo_tone (tone_frequency (BASE_FREQUENCIES ! i) (kinetic_energy q))
                   (tone_volume (kinetic_energy q)) (real i / 2)) qs) \<and>
   (update_particle 0 lc R dt p0 w = Inr (q0, w0) \<and> kinetic_energy q0 = 0.1 \<longrightarrow>
      played w0 = played w @ [stereo_tone 250 0.8 0])"
proof -
  have "played w0 = played w @ [stereo_tone 250 0.8 0]"
    if "update_particle 0 lc R dt p0 w = Inr (q0, w0)" "kinetic_energy q0 = 0.1"
    using update_particle_played [OF that(1)] that(2)
    by (simp add: BASE_FREQUENCIES_def tone_frequency_def tone_volume_def)
  then show ?thesis
    using update_group_played [of i lc R dt ps w qs w']
    by (simp add: generate_tone_stereo) (simp add: stereo_tone_def)
qed

theorem audio_mapping_witness:
  "\<exists>q w'. update_particle 0 (170, 0) 110 16 \<lparr>px = 163.6, py = - 3.2, vx = 0.4, vy = 0.2, radius = 3\<rparr>
             \<lparr>rand = (\<lambda>_. 1 / 2), played = []\<rparr> = Inr (q, w') \<and>
          kinetic_energy q = 0.1 \<and>
          played w' = [stereo_tone 250 0.8 0] \<and>
          generate_tone 250 0.8 0 = stereo_tone 250 0.8 0"
proof -
  let ?p = "\<lparr>px = 163.6, py = - 3.2, vx = 0.4, vy = 0.2, radius = 3\<rparr>"
  let ?w = "\<lparr>rand = (\<lambda>_. 1 / 2), played = []\<rparr>"
  have "\<exists>q w'. update_particle 0 (170, 0) 110 16 ?p ?w = Inr (q, w') \<and> kinetic_energy q = 0.1"
    by (simp add: update_particle_def Particle_update_def advance_def collide_def hypot_axis
          fluctuate_def random_random_def BASE_FREQUENCIES_def kinetic_energy_def Let_def
          power2_eq_square)
  then obtain q w' where e: "update_particle 0 (170, 0) 110 16 ?p ?w = Inr (q, w')"
    and k: "kinetic_energy q = 0.1"
    by blast
  have "played w' = played ?w @ [stereo_tone 250 0.8 0]"
    using audio_mapping [where lc = "(170, 0)" and R = 110 and dt = 16 and ?p0.0 = ?p and w = ?w
                           and ?q0.0 = q and ?w0.0 = w'] e k
    by blast
  moreover have "generate_tone 250 0.8 0 = stereo_tone 250 0.8 0"
    using audio_mapping [of 250 "0.8" 0] by blast
  ultimately show ?thesis
    using e k by auto
qed

subsection \<open>Loops\<close>

lemma mapM_state_post:
  assumes "mapM_state f xs s = Inr (ys, s')"
    and "\<And>x u y u'. x \<in> set xs \<Longrightarrow> f x u = Inr (y, u') \<Longrightarrow> Q x y"
  shows "list_all2 Q xs ys"
  using assms
proof (induction xs arbitrary: s ys)
  case Nil
  then show ?case by simp
next
  case (Cons x xs)
  from Cons.prems(1) obtain y s1 ys' where
    1: "f x s = Inr (y, s1)" and 2: "mapM_state f xs s1 = Inr (ys', s')" and 3: "ys = y # ys'"
    by (auto split: sum.splits prod.splits)
  have "Q x y" using Cons.prems(2) [of x s y s1] 1 by simp
  moreover have "list_all2 Q xs ys'"
    using Cons.IH [OF 2] Cons.prems(2) by simp
  ultimately show ?case using 3 by simp
qed

lemma mapM_state_total:
  assumes "\<And>x u. x \<in> set xs \<Longrightarrow> \<exists>r. f x u = Inr r"
  shows "\<exists>r. mapM_state f xs s = Inr r"
  using assms
proof (induction xs arbitrary: s)
  case Nil
  then show ?case by simp
next
  case (Cons x xs)
  obtain y s1 where 1: "f x s = Inr (y, s1)"
    using Cons.prems [of x s] by auto
  obtain r where "mapM_state f xs s1 = Inr r"
    using Cons.IH [of s1] Cons.prems by auto
  with 1 show ?case by (cases r) simp
qed

lemma mapM_enum_post:
  assumes "mapM_enum f i xs s = Inr (ys, s')"
    and "\<And>k x u y u'. x \<in> set xs \<Longrightarrow> f k x u = Inr (y, u') \<Longrightarrow> Q x y"
  shows "list_all2 Q xs ys"
  using assms
proof (induction xs arbitrary: i s ys)
  case Nil
  then show ?case by simp
next
  case (Cons x xs)
  from Cons.prems(1) obtain y s1 ys' where
    1: "f i x s = Inr (y, s1)" and 2: "mapM_enum f (Suc i) xs s1 = Inr (ys', s')" and 3: "ys = y # ys'"
    by (auto split: sum.splits prod.splits)
  have "Q x y" using Cons.prems(2) [of x i s y s1] 1 by simp
  moreover have "list_all2 Q xs ys'"
    using Cons.IH [OF 2] Cons.prems(2) by simp
  ultimately show ?case using 3 by simp
qed

lemma mapM_enum_total:
  assumes "\<And>k x u. x \<in> set xs \<Longrightarrow> \<exists>r. f k x u = Inr r"
  shows "\<exists>r. mapM_enum f i xs s = Inr r"
  using assms
proof (induction xs arbitrary: i s)
  case Nil
  then show ?case by simp
next
  case (Cons x xs)
  obtain y s1 where 1: "f i x s = Inr (y, s1)"
    using Cons.prems [of x i s] by auto
  obtain r where "mapM_enum f (Suc i) xs s1 = Inr r"
    using Cons.IH [of "Suc i" s1] Cons.prems by auto
  with 1 show ?case by (cases r) simp
qed

lemma three_le_length:
  "3 \<le> length xs \<Longrightarrow> 0 < length xs \<and> 1 < length xs \<and> 2 < length xs"
  by (cases xs) auto

lemma for_lobes_three_post:
  assumes "for_lobes f [0, 1, 2] pss s = Inr (pss', s')"
  shows "3 \<le> length pss \<and> length pss' = length pss \<and>
         (\<exists>u0 u0'. f 0 (pss ! 0) u0 = Inr (pss' ! 0, u0')) \<and>
         (\<exists>u1 u1'. f 1 (pss ! 1) u1 = Inr (pss' ! 1, u1')) \<and>
         (\<exists>u2 u2'. f 2 (pss ! 2) u2 = Inr (pss' ! 2, u2')) \<and>
         (\<forall>i. 3 \<le> i \<longrightarrow> pss' ! i = pss ! i)"
proof -
  from assms have len: "3 \<le> length pss"
    by (auto split: if_splits sum.splits prod.splits)
  from assms len obtain a s0 b s1 c where
    0: "f 0 (pss ! 0) s = Inr (a, s0)" and
    1: "f 1 (pss ! 1) s0 = Inr (b, s1)" and
    2: "f 2 (pss ! 2) s1 = Inr (c, s')" and
    r: "pss' = pss[0 := a, 1 := b, 2 := c]"
    by (auto split: if_splits sum.splits prod.splits)
  from len have lens: "0 < length pss" "1 < length pss" "2 < length pss"
    using three_le_length by blast+
  have "pss' ! 0 = a" "pss' ! 1 = b" "pss' ! 2 = c"
    using lens by (simp_all add: r nth_list_update)
  moreover have "pss' ! i = pss ! i" if "3 \<le> i" for i
    using that by (simp add: r nth_list_update)
  ultimately show ?thesis
    using len 0 1 2 r by auto
qed

lemma for_lobes_three_total:
  assumes "3 \<le> length pss"
    and "\<And>i u. i < 3 \<Longrightarrow> \<exists>r. f i (pss ! i) u = Inr r"
  shows "\<exists>r. for_lobes f [0, 1, 2] pss s = Inr r"
proof -
  obtain a s0 where 0: "f 0 (pss ! 0) s = Inr (a, s0)"
    using assms(2) [of 0 s] by auto
  obtain b s1 where 1: "f 1 (pss ! 1) s0 = Inr (b, s1)"
    using assms(2) [of 1 s0] by auto
  obtain c s2 where 2: "f 2 (pss ! 2) s1 = Inr (c, s2)"
    using assms(2) [of 2 s1] by auto
  from assms(1) have lens: "0 < length pss" "1 < length pss" "2 < length pss"
    using three_le_length by blast+
  show ?thesis
    using lens 0 1 2 by simp
qed

subsection \<open>One tick keeps the particles in their lobes\<close>

lemma collide_contained:
  assumes "collide p lc R = Inr q" and "radius p \<le> R"
  shows "radius q = radius p \<and> distance q lc + radius q \<le> R"
proof (cases "hypot (px p - fst lc) (py p - snd lc) + radius p > R")
  case True
  define d where "d = hypot (px p - fst lc) (py p - snd lc)"
  from True assms(2) have nz: "d \<noteq> 0"
    unfolding d_def by linarith
  from assms(1) True nz have q: "q = p\<lparr>vx := vx p - 2 * (vx p * ((px p - fst lc) / d) + vy p * ((py p - snd lc) / d)) * ((px p - fst lc) / d),
        vy := vy p - 2 * (vx p * ((px p - fst lc) / d) + vy p * ((py p - snd lc) / d)) * ((py p - snd lc) / d),
        px := fst lc + (px p - fst lc) / d * (R - radius p),
        py := snd lc + (py p - snd lc) / d * (R - radius p)\<rparr>"
    by (simp add: collide_def Let_def d_def)
  have "distance q lc = hypot ((px p - fst lc) / d * (R - radius p)) ((py p - snd lc) / d * (R - radius p))"
    by (simp add: q distance_def)
  also have "\<dots> = \<bar>R - radius p\<bar>"
    unfolding d_def by (rule hypot_scale) (use nz d_def in simp)
  finally have "distance q lc = R - radius p"
    using assms(2) by simp
  then show ?thesis by (simp add: q)
next
  case False
  with assms(1) have "q = p"
    by (simp add: collide_def Let_def)
  with False show ?thesis
    by (simp add: distance_def)
qed

lemma Particle_update_contained:
  assumes "Particle_update p lc R dt w = Inr (q, w')" and "radius p \<le> R"
  shows "radius q = radius p \<and> distance q lc + radius q \<le> R"
proof -
  from assms(1) obtain q0 where c: "collide (advance p dt) lc R = Inr q0"
    and f: "fluctuate q0 w = (q, w')"
    by (auto simp: Particle_update_def split: sum.splits)
  have "radius q0 = radius p \<and> distance q0 lc + radius q0 \<le> R"
    using collide_contained [OF c] assms(2) by (simp add: radius_advance)
  moreover have "px q = px q0 \<and> py q = py q0 \<and> radius q = radius q0"
    using fluctuate_position [of q0 w] f by simp
  ultimately show ?thesis
    by (simp add: distance_def)
qed

lemma update_particle_contained:
  assumes "update_particle i lc R dt p w = Inr (q, w')" and "radius p \<le> R"
  shows "radius q = radius p \<and> distance q lc + radius q \<le> R"
proof -
  from assms(1) obtain w1 where "Particle_update p lc R dt w = Inr (q, w1)"
    by (auto simp: update_particle_def Let_def split: sum.splits if_splits)
  then show ?thesis
    using assms(2) by (rule Particle_update_contained)
qed

lemma update_particle_total:
  assumes "radius p \<le> R" and "i < 3"
  shows "\<exists>r. update_particle i lc R dt p w = Inr r"
proof -
  obtain q0 where "collide (advance p dt) lc R = Inr q0"
    using collide_ok [of "advance p dt" R lc] assms(1) by (auto simp: radius_advance)
  then show ?thesis
    using assms(2)
    by (simp add: update_particle_def Particle_update_def BASE_FREQUENCIES_def Let_def
          split: prod.splits)
qed

lemma update_particle_length:
  "mapM_state (update_particle i lc R dt) ps w = Inr (qs, w') \<Longrightarrow> length qs = length ps"
  by (drule mapM_state_post [where Q = "\<lambda>_ _. True"]) (simp_all add: list_all2_conv_all_nth)

lemma update_InrE:
  assumes "update dt (SpinnerNode l c a R th pss ch ml) w = Inr (n', w')"
  obtains pss' w1 ch' where
    "for_lobes (\<lambda>lobe_idx ps u.
        mapM_state (update_particle lobe_idx
          (get_lobe_center (SpinnerNode l c a R (th + dt * (1 + real_of_int l * 0.3)) pss ch ml) lobe_idx) R dt) ps u)
      [0, 1, 2] pss w = Inr (pss', w1)"
    "(ch = None \<and> ch' = None \<and> w' = w1) \<or>
     (\<exists>css css'. ch = Some css \<and> ch' = Some css' \<and>
        mapM_enum (\<lambda>lobe_idx child_list u.
            mapM_state (\<lambda>child v.
                update dt (set_center
                  (get_lobe_center (SpinnerNode l c a R (th + dt * (1 + real_of_int l * 0.3)) pss ch ml) lobe_idx)
                  child) v)
              child_list u)
          0 css w1 = Inr (css', w'))"
    "maxwells_demon (SpinnerNode l c a R (th + dt * (1 + real_of_int l * 0.3)) pss' ch' ml) = Inr n'"
proof -
  let ?self = "SpinnerNode l c a R (th + dt * (1 + real_of_int l * 0.3)) pss ch ml"
  let ?F = "\<lambda>lobe_idx ps u. mapM_state (update_particle lobe_idx (get_lobe_center ?self lobe_idx) R dt) ps u"
  let ?G = "\<lambda>lobe_idx child_list u.
              mapM_state (\<lambda>child v. update dt (set_center (get_lobe_center ?self lobe_idx) child) v)
                child_list u"
  have eq: "update dt (SpinnerNode l c a R th pss ch ml) w =
      (case for_lobes ?F [0, 1, 2] pss w of
         Inl e \<Rightarrow> Inl e
       | Inr (pss', w1) \<Rightarrow>
           (case (case ch of
                    None \<Rightarrow> Inr (None, w1)
                  | Some css \<Rightarrow>
                      (case mapM_enum ?G 0 css w1 of
                         Inl e \<Rightarrow> Inl e
                       | Inr (css', w2) \<Rightarrow> Inr (Some css', w2))) of
              Inl e \<Rightarrow> Inl e
            | Inr (ch', w2) \<Rightarrow>
                (case maxwells_demon (SpinnerNode l c a R (th + dt * (1 + real_of_int l * 0.3)) pss' ch' ml) of
                   Inl e \<Rightarrow> Inl e
                 | Inr self' \<Rightarrow> Inr (self', w2))))"
    by (simp only: update.simps Let_def)
  from assms obtain pss' w1 where A: "for_lobes ?F [0, 1, 2] pss w = Inr (pss', w1)"
    unfolding eq by (cases "for_lobes ?F [0, 1, 2] pss w") (auto simp del: for_lobes.simps)
  note u = assms [unfolded eq A]
  show ?thesis
  proof (cases ch)
    case None
    from u None have "maxwells_demon (SpinnerNode l c a R (th + dt * (1 + real_of_int l * 0.3)) pss' None ml) = Inr n' \<and> w' = w1"
      by (simp del: maxwells_demon.simps split: sum.splits)
    then show ?thesis
      using that [of pss' w1 None] A None by simp
  next
    case (Some css)
    from u Some obtain css' w2 where B: "mapM_enum ?G 0 css w1 = Inr (css', w2)"
      by (cases "mapM_enum ?G 0 css w1") (auto simp del: maxwells_demon.simps)
    from u Some B have "maxwells_demon (SpinnerNode l c a R (th + dt * (1 + real_of_int l * 0.3)) pss' (Some css') ml) = Inr n' \<and> w' = w2"
      by (simp del: maxwells_demon.simps split: sum.splits)
    then show ?thesis
      using that [of pss' w1 "Some css'"] A B Some by simp
  qed
qed

lemma list_all2_setD2:
  "list_all2 Q xs ys \<Longrightarrow> y \<in> set ys \<Longrightarrow> \<exists>x\<in>set xs. Q x y"
  by (induction rule: list_all2_induct) auto

lemma all_nodes_demon_map:
  assumes "\<And>l c a R th pss ch ch' ml.
     P (SpinnerNode l c a R th
          (on_lobes (\<lambda>i. map (demon_particle (get_lobe_center (SpinnerNode l c a R th pss ch ml) i))) pss)
          ch' ml) = P (SpinnerNode l c a R th pss ch ml)"
  shows "all_nodes P (demon_map n) = all_nodes P n"
proof (induction n rule: demon_map.induct)
  case (1 l c a R th pss ch ml)
  show ?case
  proof (cases ch)
    case None
    then show ?thesis by (simp add: assms)
  next
    case (Some css)
    then show ?thesis using 1 by (simp add: assms)
  qed
qed

lemma node_fits_simp:
  "node_fits (SpinnerNode l c a R th pss ch ml) =
     (3 \<le> length pss \<and> (\<forall>i\<in>set [0, 1, 2]. \<forall>p\<in>set (pss ! i). radius p \<le> R))"
  by (simp add: node_fits_def)

lemma node_contained_simp:
  "node_contained (SpinnerNode l c a R th pss ch ml) =
     (\<forall>i\<in>set [0, 1, 2]. i < length pss \<longrightarrow>
        (\<forall>p\<in>set (pss ! i).
           distance p (get_lobe_center (SpinnerNode l c a R th pss ch ml) i) + radius p \<le> R))"
  by (simp add: node_contained_def)

lemma in_lobes_on_lobes:
  assumes "\<And>i p. Q i (demon_particle (g i) p) = Q i p"
  shows "(\<forall>i\<in>set [0, 1, 2]. i < length pss \<longrightarrow>
            (\<forall>q\<in>set (on_lobes (\<lambda>i. map (demon_particle (g i))) pss ! i). Q i q))
         = (\<forall>i\<in>set [0, 1, 2]. i < length pss \<longrightarrow> (\<forall>p\<in>set (pss ! i). Q i p))"
  by (simp add: nth_on_lobes assms)

lemma demon_map_fits: "all_nodes node_fits (demon_map n) = all_nodes node_fits n"
proof (rule all_nodes_demon_map)
  fix l c a R th pss ch ch' ml
  let ?g = "get_lobe_center (SpinnerNode l c a R th pss ch ml)"
  have "(\<forall>i\<in>set [0, 1, 2]. i < length pss \<longrightarrow>
            (\<forall>q\<in>set (on_lobes (\<lambda>i. map (demon_particle (?g i))) pss ! i). radius q \<le> R))
         = (\<forall>i\<in>set [0, 1, 2]. i < length pss \<longrightarrow> (\<forall>p\<in>set (pss ! i). radius p \<le> R))"
    by (rule in_lobes_on_lobes) (simp add: demon_particle_fields)
  then show "node_fits (SpinnerNode l c a R th (on_lobes (\<lambda>i. map (demon_particle (?g i))) pss) ch' ml)
      = node_fits (SpinnerNode l c a R th pss ch ml)"
    unfolding node_fits_simp using three_le_length [of pss] by auto
qed

lemma demon_map_contained: "all_nodes node_contained (demon_map n) = all_nodes node_contained n"
proof (rule all_nodes_demon_map)
  fix l c a R th pss ch ch' ml
  let ?g = "get_lobe_center (SpinnerNode l c a R th pss ch ml)"
  have same: "get_lobe_center (SpinnerNode l c a R th pss2 ch2 ml) i = ?g i" for pss2 ch2 i
    by (simp add: get_lobe_center_node)
  have "(\<forall>i\<in>set [0, 1, 2]. i < length pss \<longrightarrow>
            (\<forall>q\<in>set (on_lobes (\<lambda>i. map (demon_particle (?g i))) pss ! i). distance q (?g i) + radius q \<le> R))
         = (\<forall>i\<in>set [0, 1, 2]. i < length pss \<longrightarrow> (\<forall>p\<in>set (pss ! i). distance p (?g i) + radius p \<le> R))"
    by (rule in_lobes_on_lobes) (simp add: demon_particle_fields demon_particle_distance)
  then show "node_contained (SpinnerNode l c a R th (on_lobes (\<lambda>i. map (demon_particle (?g i))) pss) ch' ml)
      = node_contained (SpinnerNode l c a R th pss ch ml)"
    unfolding node_contained_simp same [of "on_lobes (\<lambda>i. map (demon_particle (?g i))) pss" ch'] by simp
qed

lemma maxwells_demon_InrD:
  "maxwells_demon n = Inr n' \<Longrightarrow> n' = demon_map n \<and> all_nodes node_shape n"
  by (simp add: maxwells_demon_eq split: if_splits)

lemma all_nodes_set_center: 
  assumes "\<And>l c a R th pss ch ml c'. P (SpinnerNode l c' a R th pss ch ml) = P (SpinnerNode l c a R th pss ch ml)"
  shows "all_nodes P (set_center lc n) = all_nodes P n"
proof (cases n)
  case (SpinnerNode l c a R th pss ch ml)
  show ?thesis
    unfolding SpinnerNode using assms [of l lc a R th pss ch ml c] by simp
qed

lemma fits_set_center: "all_nodes node_fits (set_center lc n) = all_nodes node_fits n"
  by (rule all_nodes_set_center) (simp add: node_fits_def)

lemma fits_shape: "all_nodes node_fits n \<Longrightarrow> all_nodes node_shape n"
proof (induction n rule: demon_map.induct)
  case (1 l c a R th pss ch ml)
  then show ?case
    by (cases ch) (auto simp: node_fits_def node_shape_def)
qed

lemma for_lobes_three_nth:
  assumes "for_lobes f [0, 1, 2] pss s = Inr (pss', s')" and "i < 3"
  shows "\<exists>u u'. f i (pss ! i) u = Inr (pss' ! i, u')"
  using for_lobes_three_post [OF assms(1)] less_3_cases [OF assms(2)] by auto

lemma update_lobes_post:
  assumes A: "for_lobes (\<lambda>i ps u. mapM_state (update_particle i (g i) R dt) ps u) [0, 1, 2] pss w
                = Inr (pss', w1)"
    and fits: "\<forall>i\<in>set [0, 1, 2]. \<forall>p\<in>set (pss ! i). radius p \<le> R"
  shows "3 \<le> length pss' \<and>
         (\<forall>i\<in>set [0, 1, 2]. \<forall>q\<in>set (pss' ! i). radius q \<le> R \<and> distance q (g i) + radius q \<le> R)"
proof -
  have len: "3 \<le> length pss'"
    using for_lobes_three_post [OF A] by simp
  have each: "radius q \<le> R \<and> distance q (g i) + radius q \<le> R"
    if i: "i < 3" and q: "q \<in> set (pss' ! i)" for i q
  proof -
    obtain u u' where m: "mapM_state (update_particle i (g i) R dt) (pss ! i) u = Inr (pss' ! i, u')"
      using for_lobes_three_nth [OF A i] by blast
    have small: "radius p \<le> R" if "p \<in> set (pss ! i)" for p
      using fits that less_3_cases [OF i] by auto
    have "list_all2 (\<lambda>p q. radius q = radius p \<and> radius p \<le> R \<and> distance q (g i) + radius q \<le> R)
            (pss ! i) (pss' ! i)"
      using m
    proof (rule mapM_state_post)
      fix x u y u'
      assume "x \<in> set (pss ! i)" and "update_particle i (g i) R dt x u = Inr (y, u')"
      then show "radius y = radius x \<and> radius x \<le> R \<and> distance y (g i) + radius y \<le> R"
        using update_particle_contained [of i "g i" R dt x u y u'] small by simp
    qed
    from list_all2_setD2 [OF this q] show ?thesis by auto
  qed
  show ?thesis
    using len each [of 0] each [of 1] each [of 2] by simp
qed

lemma update_invariant:
  "update dt n w = Inr (n', w') \<Longrightarrow> all_nodes node_fits n \<Longrightarrow>
     all_nodes node_fits n' \<and> all_nodes node_contained n'"
proof (induction dt n w arbitrary: n' w' rule: update.induct)
  case (1 dt l c a R th pss ch ml w)
  let ?th = "th + dt * (1 + real_of_int l * 0.3)"
  let ?self = "SpinnerNode l c a R ?th pss ch ml"
  from "1.prems"(1) obtain pss' w1 ch' where
    A: "for_lobes (\<lambda>lobe_idx ps u.
          mapM_state (update_particle lobe_idx (get_lobe_center ?self lobe_idx) R dt) ps u)
        [0, 1, 2] pss w = Inr (pss', w1)" and
    B: "(ch = None \<and> ch' = None \<and> w' = w1) \<or>
        (\<exists>css css'. ch = Some css \<and> ch' = Some css' \<and>
           mapM_enum (\<lambda>lobe_idx child_list u.
               mapM_state (\<lambda>child v. update dt (set_center (get_lobe_center ?self lobe_idx) child) v)
                 child_list u)
             0 css w1 = Inr (css', w'))" and
    C: "maxwells_demon (SpinnerNode l c a R ?th pss' ch' ml) = Inr n'"
    by (rule update_InrE)
  from "1.prems"(2) have fits: "\<forall>i\<in>set [0, 1, 2]. \<forall>p\<in>set (pss ! i). radius p \<le> R"
    by (simp add: node_fits_def)
  note post = update_lobes_post [OF A fits]
  have same: "get_lobe_center (SpinnerNode l c a R ?th pss2 ch2 ml) i = get_lobe_center ?self i"
    for pss2 ch2 i
    by (simp add: get_lobe_center_node)
  have here: "node_fits (SpinnerNode l c a R ?th pss' ch' ml) \<and>
              node_contained (SpinnerNode l c a R ?th pss' ch' ml)"
    using post unfolding node_fits_simp node_contained_simp same [of pss' ch'] by simp
  let ?Q = "\<lambda>(x::SpinnerNode) (y::SpinnerNode). all_nodes node_fits y \<and> all_nodes node_contained y"
  have below: "all_nodes node_fits c' \<and> all_nodes node_contained c'"
    if "ch' = Some css'" "cs' \<in> set css'" "c' \<in> set cs'" for css' cs' c'
  proof -
    from B that(1) obtain css where
      ch: "ch = Some css" and
      m: "mapM_enum (\<lambda>lobe_idx child_list u.
               mapM_state (\<lambda>child v. update dt (set_center (get_lobe_center ?self lobe_idx) child) v)
                 child_list u)
             0 css w1 = Inr (css', w')"
      by auto
    have "list_all2 (list_all2 ?Q) css css'"
      using m
    proof (rule mapM_enum_post)
      fix k cs u ds u'
      assume cs: "cs \<in> set css"
        and r: "mapM_state (\<lambda>child v. update dt (set_center (get_lobe_center ?self k) child) v) cs u
                 = Inr (ds, u')"
      show "list_all2 ?Q cs ds"
        using r
      proof (rule mapM_state_post)
        fix x v y v'
        assume x: "x \<in> set cs"
          and up: "update dt (set_center (get_lobe_center ?self k) x) v = Inr (y, v')"
        have "all_nodes node_fits x"
          using "1.prems"(2) ch cs x by auto
        then have "all_nodes node_fits (set_center (get_lobe_center ?self k) x)"
          by (simp add: fits_set_center)
        with "1.IH" [OF refl refl A refl ch cs x up] show "all_nodes node_fits y \<and> all_nodes node_contained y"
          by simp
      qed
    qed
    from list_all2_setD2 [OF this that(2)] obtain cs where
      "list_all2 ?Q cs cs'"
      by auto
    from list_all2_setD2 [OF this that(3)] show ?thesis by auto
  qed
  have whole: "all_nodes node_fits (SpinnerNode l c a R ?th pss' ch' ml) \<and>
               all_nodes node_contained (SpinnerNode l c a R ?th pss' ch' ml)"
    using here below by (cases ch') auto
  from maxwells_demon_InrD [OF C] have "n' = demon_map (SpinnerNode l c a R ?th pss' ch' ml)"
    by simp
  with whole show ?case
    by (simp only: demon_map_fits demon_map_contained)
qed

lemma update_InrI:
  assumes "for_lobes (\<lambda>lobe_idx ps u.
        mapM_state (update_particle lobe_idx
          (get_lobe_center (SpinnerNode l c a R (th + dt * (1 + real_of_int l * 0.3)) pss ch ml) lobe_idx) R dt) ps u)
      [0, 1, 2] pss w = Inr (pss', w1)"
    and "(ch = None \<and> ch' = None \<and> w' = w1) \<or>
     (\<exists>css css'. ch = Some css \<and> ch' = Some css' \<and>
        mapM_enum (\<lambda>lobe_idx child_list u.
            mapM_state (\<lambda>child v.
                update dt (set_center
                  (get_lobe_center (SpinnerNode l c a R (th + dt * (1 + real_of_int l * 0.3)) pss ch ml) lobe_idx)
                  child) v)
              child_list u)
          0 css w1 = Inr (css', w'))"
    and "maxwells_demon (SpinnerNode l c a R (th + dt * (1 + real_of_int l * 0.3)) pss' ch' ml) = Inr n'"
  shows "update dt (SpinnerNode l c a R th pss ch ml) w = Inr (n', w')"
proof -
  from assms(2) show ?thesis
  proof (elim disjE conjE exE)
    assume "ch = None" "ch' = None" "w' = w1"
    with assms(1,3) show ?thesis
      by (simp only: update.simps Let_def) (simp del: for_lobes.simps maxwells_demon.simps)
  next
    fix css css'
    assume "ch = Some css" "ch' = Some css'"
      and "mapM_enum (\<lambda>lobe_idx child_list u.
            mapM_state (\<lambda>child v.
                update dt (set_center
                  (get_lobe_center (SpinnerNode l c a R (th + dt * (1 + real_of_int l * 0.3)) pss ch ml) lobe_idx)
                  child) v)
              child_list u)
          0 css w1 = Inr (css', w')"
    with assms(1,3) show ?thesis
      by (simp only: update.simps Let_def) (simp del: for_lobes.simps maxwells_demon.simps)
  qed
qed

lemma update_total:
  "all_nodes node_fits n \<Longrightarrow> \<exists>r. update dt n w = Inr r"
proof (induction dt n w rule: update.induct)
  case (1 dt l c a R th pss ch ml w)
  let ?th = "th + dt * (1 + real_of_int l * 0.3)"
  let ?self = "SpinnerNode l c a R ?th pss ch ml"
  let ?F = "\<lambda>lobe_idx ps u.
          mapM_state (update_particle lobe_idx (get_lobe_center ?self lobe_idx) R dt) ps u"
  let ?G = "\<lambda>lobe_idx child_list u.
               mapM_state (\<lambda>child v. update dt (set_center (get_lobe_center ?self lobe_idx) child) v)
                 child_list u"
  from "1.prems" have len: "3 \<le> length pss"
    and fits: "\<forall>i\<in>set [0, 1, 2]. \<forall>p\<in>set (pss ! i). radius p \<le> R"
    by (simp_all add: node_fits_def)
  have "\<exists>r. for_lobes ?F [0, 1, 2] pss w = Inr r"
  proof (rule for_lobes_three_total [OF len])
    fix i u
    assume i: "i < (3::nat)"
    show "\<exists>r. mapM_state (update_particle i (get_lobe_center ?self i) R dt) (pss ! i) u = Inr r"
    proof (rule mapM_state_total)
      fix x v
      assume "x \<in> set (pss ! i)"
      then have "radius x \<le> R"
        using fits less_3_cases [OF i] by auto
      then show "\<exists>r. update_particle i (get_lobe_center ?self i) R dt x v = Inr r"
        using i by (rule update_particle_total)
    qed
  qed
  then obtain pss' w1 where A: "for_lobes ?F [0, 1, 2] pss w = Inr (pss', w1)"
    by auto
  have len': "3 \<le> length pss'"
    using update_lobes_post [OF A fits] by simp
  show ?case
  proof (cases ch)
    case None
    have "all_nodes node_shape (SpinnerNode l c a R ?th pss' None ml)"
      using len' by (simp add: node_shape_def)
    then have "maxwells_demon (SpinnerNode l c a R ?th pss' None ml)
                 = Inr (demon_map (SpinnerNode l c a R ?th pss' None ml))"
      by (simp only: maxwells_demon_eq if_True)
    with A None show ?thesis
      using update_InrI [of l c a R th dt pss ch ml w pss' w1 None w1] by blast
  next
    case (Some css)
    have "\<exists>r. mapM_enum ?G 0 css w1 = Inr r"
    proof (rule mapM_enum_total)
      fix k cs u
      assume cs: "cs \<in> set css"
      show "\<exists>r. mapM_state (\<lambda>child v. update dt (set_center (get_lobe_center ?self k) child) v) cs u = Inr r"
      proof (rule mapM_state_total)
        fix x v
        assume x: "x \<in> set cs"
        have "all_nodes node_fits x"
          using "1.prems" Some cs x by auto
        then have "all_nodes node_fits (set_center (get_lobe_center ?self k) x)"
          by (simp add: fits_set_center)
        then show "\<exists>r. update dt (set_center (get_lobe_center ?self k) x) v = Inr r"
          by (rule "1.IH" [OF refl refl A refl Some cs x])
      qed
    qed
    then obtain css' w2 where B: "mapM_enum ?G 0 css w1 = Inr (css', w2)"
      by auto
    let ?P = "\<lambda>(x::SpinnerNode) (y::SpinnerNode). all_nodes node_shape y"
    have "list_all2 (list_all2 ?P) css css'"
      using B
    proof (rule mapM_enum_post)
      fix k cs u ds u'
      assume cs: "cs \<in> set css"
        and r: "mapM_state (\<lambda>child v. update dt (set_center (get_lobe_center ?self k) child) v) cs u
                 = Inr (ds, u')"
      show "list_all2 ?P cs ds"
        using r
      proof (rule mapM_state_post)
        fix x v y v'
        assume x: "x \<in> set cs"
          and up: "update dt (set_center (get_lobe_center ?self k) x) v = Inr (y, v')"
        have "all_nodes node_fits x"
          using "1.prems" Some cs x by auto
        then have "all_nodes node_fits (set_center (get_lobe_center ?self k) x)"
          by (simp add: fits_set_center)
        from update_invariant [OF up this] show "all_nodes node_shape y"
          by (simp add: fits_shape)
      qed
    qed
    then have "\<forall>cs'\<in>set css'. \<forall>c'\<in>set cs'. all_nodes node_shape c'"
      by (meson list_all2_setD2)
    then have "all_nodes node_shape (SpinnerNode l c a R ?th pss' (Some css') ml)"
      using len' by (simp add: node_shape_def)
    then have "maxwells_demon (SpinnerNode l c a R ?th pss' (Some css') ml)
                 = Inr (demon_map (SpinnerNode l c a R ?th pss' (Some css') ml))"
      by (simp only: maxwells_demon_eq if_True)
    with A B Some show ?thesis
      using update_InrI [of l c a R th dt pss ch ml w pss' w1 "Some css'" w2] by blast
  qed
qed

lemma ticks_invariant:
  "all_nodes node_fits n \<Longrightarrow>
     \<exists>n' w'. ticks dts n w = Inr (n', w') \<and> all_nodes node_fits n' \<and>
             (dts \<noteq> [] \<longrightarrow> all_nodes node_contained n')"
proof (induction dts arbitrary: n w)
  case Nil
  then show ?case by simp
next
  case (Cons dt dts)
  obtain n1 w1 where u: "update dt n w = Inr (n1, w1)"
    using update_total [OF Cons.prems, of dt w] by auto
  note inv = update_invariant [OF u Cons.prems]
  obtain n' w' where t: "ticks dts n1 w1 = Inr (n', w')" and f: "all_nodes node_fits n'"
    and c: "dts \<noteq> [] \<longrightarrow> all_nodes node_contained n'"
    using Cons.IH [of n1 w1] inv by blast
  have "all_nodes node_contained n'"
  proof (cases dts)
    case Nil
    with t inv show ?thesis by simp
  next
    case (Cons a list)
    with c show ?thesis by simp
  qed
  with u t f show ?case by simp
qed

lemma collide_radius:
  assumes "collide p lc R = Inr q"
  shows "radius q = radius p"
  using assms by (auto simp: collide_def Let_def split: if_splits)

lemma update_particle_contained_fit:
  assumes "update_particle i lc R dt p w = Inr (q, w')"
  shows "radius q \<le> R \<longrightarrow> distance q lc + radius q \<le> R"
proof
  assume small: "radius q \<le> R"
  from assms obtain w1 where pu: "Particle_update p lc R dt w = Inr (q, w1)"
    by (auto simp: update_particle_def Let_def split: sum.splits if_splits)
  then obtain q0 where c: "collide (advance p dt) lc R = Inr q0" and f: "fluctuate q0 w = (q, w1)"
    by (auto simp: Particle_update_def split: sum.splits)
  have "radius q = radius q0"
    using fluctuate_position [of q0 w] f by simp
  with collide_radius [OF c] small have "radius p \<le> R"
    by (simp add: radius_advance)
  with pu show "distance q lc + radius q \<le> R"
    using Particle_update_contained by blast
qed

lemma update_lobes_post_fit:
  assumes A: "for_lobes (\<lambda>i ps u. mapM_state (update_particle i (g i) R dt) ps u) [0, 1, 2] pss w
                = Inr (pss', w1)"
  shows "\<forall>i\<in>set [0, 1, 2]. \<forall>q\<in>set (pss' ! i). radius q \<le> R \<longrightarrow> distance q (g i) + radius q \<le> R"
proof -
  have each: "radius q \<le> R \<longrightarrow> distance q (g i) + radius q \<le> R"
    if i: "i < 3" and q: "q \<in> set (pss' ! i)" for i q
  proof -
    obtain u u' where m: "mapM_state (update_particle i (g i) R dt) (pss ! i) u = Inr (pss' ! i, u')"
      using for_lobes_three_nth [OF A i] by blast
    have "list_all2 (\<lambda>(p::particle) q. radius q \<le> R \<longrightarrow> distance q (g i) + radius q \<le> R)
            (pss ! i) (pss' ! i)"
      using m by (rule mapM_state_post) (rule update_particle_contained_fit)
    from list_all2_setD2 [OF this q] show ?thesis by auto
  qed
  show ?thesis
    using each [of 0] each [of 1] each [of 2] by simp
qed

lemma node_contained_fit_simp:
  "node_contained_fit (SpinnerNode l c a R th pss ch ml) =
     (\<forall>i\<in>set [0, 1, 2]. i < length pss \<longrightarrow>
        (\<forall>p\<in>set (pss ! i).
           radius p \<le> R \<longrightarrow>
           distance p (get_lobe_center (SpinnerNode l c a R th pss ch ml) i) + radius p \<le> R))"
  by (simp add: node_contained_fit_def)

lemma demon_map_contained_fit:
  "all_nodes node_contained_fit (demon_map n) = all_nodes node_contained_fit n"
proof (rule all_nodes_demon_map)
  fix l c a R th pss ch ch' ml
  let ?g = "get_lobe_center (SpinnerNode l c a R th pss ch ml)"
  have same: "get_lobe_center (SpinnerNode l c a R th pss2 ch2 ml) i = ?g i" for pss2 ch2 i
    by (simp add: get_lobe_center_node)
  have "(\<forall>i\<in>set [0, 1, 2]. i < length pss \<longrightarrow>
            (\<forall>q\<in>set (on_lobes (\<lambda>i. map (demon_particle (?g i))) pss ! i).
               radius q \<le> R \<longrightarrow> distance q (?g i) + radius q \<le> R))
         = (\<forall>i\<in>set [0, 1, 2]. i < length pss \<longrightarrow>
            (\<forall>p\<in>set (pss ! i). radius p \<le> R \<longrightarrow> distance p (?g i) + radius p \<le> R))"
    by (rule in_lobes_on_lobes) (simp add: demon_particle_fields demon_particle_distance)
  then show "node_contained_fit (SpinnerNode l c a R th (on_lobes (\<lambda>i. map (demon_particle (?g i))) pss) ch' ml)
      = node_contained_fit (SpinnerNode l c a R th pss ch ml)"
    unfolding node_contained_fit_simp same [of "on_lobes (\<lambda>i. map (demon_particle (?g i))) pss" ch'] by simp
qed

lemma update_contained_fit:
  "update dt n w = Inr (n', w') \<Longrightarrow> all_nodes node_contained_fit n'"
proof (induction dt n w arbitrary: n' w' rule: update.induct)
  case (1 dt l c a R th pss ch ml w)
  let ?th = "th + dt * (1 + real_of_int l * 0.3)"
  let ?self = "SpinnerNode l c a R ?th pss ch ml"
  from "1.prems" obtain pss' w1 ch' where
    A: "for_lobes (\<lambda>lobe_idx ps u.
          mapM_state (update_particle lobe_idx (get_lobe_center ?self lobe_idx) R dt) ps u)
        [0, 1, 2] pss w = Inr (pss', w1)" and
    B: "(ch = None \<and> ch' = None \<and> w' = w1) \<or>
        (\<exists>css css'. ch = Some css \<and> ch' = Some css' \<and>
           mapM_enum (\<lambda>lobe_idx child_list u.
               mapM_state (\<lambda>child v. update dt (set_center (get_lobe_center ?self lobe_idx) child) v)
                 child_list u)
             0 css w1 = Inr (css', w'))" and
    C: "maxwells_demon (SpinnerNode l c a R ?th pss' ch' ml) = Inr n'"
    by (rule update_InrE)
  note post = update_lobes_post_fit [OF A]
  have same: "get_lobe_center (SpinnerNode l c a R ?th pss2 ch2 ml) i = get_lobe_center ?self i"
    for pss2 ch2 i
    by (simp add: get_lobe_center_node)
  have here: "node_contained_fit (SpinnerNode l c a R ?th pss' ch' ml)"
    using post unfolding node_contained_fit_simp same [of pss' ch'] by simp
  let ?Q = "\<lambda>(x::SpinnerNode) (y::SpinnerNode). all_nodes node_contained_fit y"
  have below: "all_nodes node_contained_fit c'"
    if "ch' = Some css'" "cs' \<in> set css'" "c' \<in> set cs'" for css' cs' c'
  proof -
    from B that(1) obtain css where
      ch: "ch = Some css" and
      m: "mapM_enum (\<lambda>lobe_idx child_list u.
               mapM_state (\<lambda>child v. update dt (set_center (get_lobe_center ?self lobe_idx) child) v)
                 child_list u)
             0 css w1 = Inr (css', w')"
      by auto
    have "list_all2 (list_all2 ?Q) css css'"
      using m
    proof (rule mapM_enum_post)
      fix k cs u ds u'
      assume cs: "cs \<in> set css"
        and r: "mapM_state (\<lambda>child v. update dt (set_center (get_lobe_center ?self k) child) v) cs u
                 = Inr (ds, u')"
      show "list_all2 ?Q cs ds"
        using r
      proof (rule mapM_state_post)
        fix x v y v'
        assume x: "x \<in> set cs"
          and up: "update dt (set_center (get_lobe_center ?self k) x) v = Inr (y, v')"
        show "all_nodes node_contained_fit y"
          by (rule "1.IH" [OF refl refl A refl ch cs x up])
      qed
    qed
    from list_all2_setD2 [OF this that(2)] obtain cs where "list_all2 ?Q cs cs'"
      by auto
    from list_all2_setD2 [OF this that(3)] show ?thesis by auto
  qed
  have whole: "all_nodes node_contained_fit (SpinnerNode l c a R ?th pss' ch' ml)"
    using here below by (cases ch') auto
  from maxwells_demon_InrD [OF C] have "n' = demon_map (SpinnerNode l c a R ?th pss' ch' ml)"
    by simp
  with whole show ?case
    by (simp only: demon_map_contained_fit)
qed

lemma ticks_contained_fit:
  "dts \<noteq> [] \<Longrightarrow> ticks dts n w = Inr (n', w') \<Longrightarrow> all_nodes node_contained_fit n'"
proof (induction dts arbitrary: n w)
  case Nil
  then show ?case by simp
next
  case (Cons dt dts)
  from Cons.prems(2) obtain n1 w1 where u: "update dt n w = Inr (n1, w1)"
    and t: "ticks dts n1 w1 = Inr (n', w')"
    by (auto split: sum.splits)
  show ?case
  proof (cases dts)
    case Nil
    with t have "n' = n1" by simp
    with update_contained_fit [OF u] show ?thesis by simp
  next
    case (Cons a list)
    then have "dts \<noteq> []" by simp
    then show ?thesis using t by (rule Cons.IH)
  qed
qed

lemma example_tree_fits: "all_nodes node_fits example_tree"
  by (simp add: example_tree_def example_leaf_def node_fits_def)

lemma mixed_tick:
  "ticks [16] mixed_tree still_world =
     Inr (SpinnerNode 0 (0, 0) 170 3 16
            [[\<lparr>px = cos 16 * 170 - 1 / 2, py = sin 16 * 170, vx = 0, vy = 0, radius = 7 / 2\<rparr>,
              \<lparr>px = cos 16 * 170 - 1, py = sin 16 * 170, vx = 0, vy = 0, radius = 2\<rparr>],
             [], []]
            None 0,
          \<lparr>rand = (\<lambda>_. 1 / 2), played = [generate_tone 220 0 0, generate_tone 220 0 0]\<rparr>)"
  by (simp add: mixed_tree_def still_world_def update_particle_def Particle_update_def
        advance_def collide_def hypot_axis fluctuate_def random_random_def play_def
        BASE_FREQUENCIES_def kinetic_energy_def get_lobe_center_def demon_particle_def Let_def)

lemma mixed_tree_unfit: "\<not> all_nodes node_fits mixed_tree"
  by (simp add: mixed_tree_def node_fits_def)

text \<open>
  Claim C1, amended. After any run of one or more ticks that returns, every particle of
  every lobe of every node whose radius does not exceed its node's \<open>lobe_radius\<close> has
  \<open>distance from the lobe's current center + radius \<le> lobe_radius\<close>, whatever the other
  particles of the tree are. In a tree where every node has its three particle groups and no
  particle is larger than its lobe, every such run returns, and then all particles are
  inside their lobes.
\<close>

theorem containment_after_ticks:
  "dts \<noteq> [] \<Longrightarrow>
     (\<forall>n' w'. ticks dts n w = Inr (n', w') \<longrightarrow> all_nodes node_contained_fit n') \<and>
     (all_nodes node_fits n \<longrightarrow>
        (\<exists>n' w'. ticks dts n w = Inr (n', w') \<and> all_nodes node_contained n' \<and> all_nodes node_fits n'))"
  using ticks_contained_fit [of dts n w] ticks_invariant [of n dts w] by blast

theorem containment_after_ticks_witness:
  "[16::real] \<noteq> [] \<and> \<not> all_nodes node_fits mixed_tree \<and>
   (\<exists>n' w'. ticks [16] mixed_tree still_world = Inr (n', w') \<and> all_nodes node_contained_fit n') \<and>
   all_nodes node_fits example_tree \<and>
   (\<exists>n' w'. ticks [16, 17] example_tree still_world = Inr (n', w') \<and> all_nodes node_contained n')"
proof -
  have 1: "\<exists>n' w'. ticks [16] mixed_tree still_world = Inr (n', w') \<and> all_nodes node_contained_fit n'"
    using containment_after_ticks [of "[16]" mixed_tree still_world] mixed_tick by blast
  have 2: "\<exists>n' w'. ticks [16, 17] example_tree still_world = Inr (n', w') \<and> all_nodes node_contained n'"
    using containment_after_ticks [of "[16, 17]" example_tree still_world] example_tree_fits by blast
  show ?thesis
    using 1 2 mixed_tree_unfit example_tree_fits by simp
qed

lemma new_particle_oversize:
  "\<exists>p w'. new_particle lc 3 \<lparr>rand = (\<lambda>_. 3 / 4), played = []\<rparr> = Inr (p, w') \<and> radius p = 7 / 2"
  by (simp add: new_particle_def random_random_def Particle_init_def Let_def)

lemma oversize_tick:
  "update 16 oversize_tree still_world =
     Inr (SpinnerNode 0 (0, 0) 170 3 16
            [[\<lparr>px = cos 16 * 170 - 1 / 2, py = sin 16 * 170, vx = 0, vy = 0, radius = 7 / 2\<rparr>], [], []]
            None 0,
          \<lparr>rand = (\<lambda>_. 1 / 2), played = [generate_tone 220 0 0]\<rparr>)"
  by (simp add: oversize_tree_def still_world_def update_particle_def Particle_update_def
        advance_def collide_def hypot_axis fluctuate_def random_random_def play_def
        BASE_FREQUENCIES_def kinetic_energy_def get_lobe_center_def demon_particle_def Let_def)

text \<open>
  Claim C1 as stated fails for a particle larger than its lobe: the tick returns and leaves
  the particle at distance \<open>radius - lobe_radius\<close> from the center, outside the bound.
  \<^verbatim>\<open>init_particles\<close> draws the radius from 2 to 4 whatever the lobe radius, so a lobe of
  radius 3 can get a particle of radius 3.5.
\<close>

theorem containment_counterexample:
  "\<exists>n' w'. update 16 oversize_tree still_world = Inr (n', w') \<and> \<not> all_nodes node_contained n'"
  by (simp add: oversize_tick node_contained_def get_lobe_center_def distance_def hypot_axis)

subsection \<open>The sort at the end of a tick\<close>

lemma mapM_fixed: "(\<And>x. x \<in> set xs \<Longrightarrow> f x = Inr x) \<Longrightarrow> mapM f xs = Inr xs"
  by (induction xs) simp_all

lemma demon_map_fixed:
  assumes "all_nodes node_shape n"
  shows "maxwells_demon (demon_map n) = Inr (demon_map n)"
proof -
  have "all_nodes node_shape (demon_map n)"
    using assms by (simp only: demon_map_shape)
  then have "maxwells_demon (demon_map n) = Inr (demon_map (demon_map n))"
    by (simp only: maxwells_demon_eq if_True)
  then show ?thesis
    by (simp only: demon_map_idem)
qed

lemma update_fixed:
  assumes "update dt n w = Inr (n', w')"
  shows "maxwells_demon n' = Inr n'"
proof (cases n)
  case (SpinnerNode l c a R th pss ch ml)
  from assms [unfolded SpinnerNode] obtain pss' ch' where
    "maxwells_demon (SpinnerNode l c a R (th + dt * (1 + real_of_int l * 0.3)) pss' ch' ml) = Inr n'"
    by (rule update_InrE)
  from maxwells_demon_InrD [OF this] show ?thesis
    using demon_map_fixed by blast
qed

lemma maxwells_demon_sorted_children:
  assumes "\<And>cs x. cs \<in> set css \<Longrightarrow> x \<in> set cs \<Longrightarrow> maxwells_demon x = Inr x"
  shows "maxwells_demon (SpinnerNode l c a R th pss (Some css) ml)
           = demon_own (SpinnerNode l c a R th pss (Some css) ml)"
proof -
  have inner: "mapM maxwells_demon cs = Inr cs" if "cs \<in> set css" for cs
    using assms that by (intro mapM_fixed) auto
  have "mapM (mapM maxwells_demon) css = Inr css"
    by (rule mapM_fixed) (rule inner)
  then show ?thesis
    by (simp del: demon_lobes.simps split: sum.splits)
qed

lemma maxwells_demon_leaf:
  "maxwells_demon (SpinnerNode l c a R th pss None ml) = demon_own (SpinnerNode l c a R th pss None ml)"
  by (simp del: demon_lobes.simps split: sum.splits)

lemma update_eq_update_once: "update dt n w = update_once dt n w"
proof (induction dt n w rule: update.induct)
  case (1 dt l c a R th pss ch ml w)
  let ?th = "th + dt * (1 + real_of_int l * 0.3)"
  show ?case
  proof (cases ch)
    case None
    let ?self = "SpinnerNode l c a R ?th pss None ml"
    let ?F = "\<lambda>lobe_idx ps u.
          mapM_state (update_particle lobe_idx (get_lobe_center ?self lobe_idx) R dt) ps u"
    have L: "update dt (SpinnerNode l c a R th pss None ml) w =
        (case for_lobes ?F [0, 1, 2] pss w of
           Inl e \<Rightarrow> Inl e
         | Inr (pss', w1) \<Rightarrow>
             (case maxwells_demon (SpinnerNode l c a R ?th pss' None ml) of
                Inl e \<Rightarrow> Inl e
              | Inr self' \<Rightarrow> Inr (self', w1)))"
      by (simp only: update.simps Let_def option.case sum.case prod.case)
    have R: "update_once dt (SpinnerNode l c a R th pss None ml) w =
        (case for_lobes ?F [0, 1, 2] pss w of
           Inl e \<Rightarrow> Inl e
         | Inr (pss', w1) \<Rightarrow>
             (case demon_own (SpinnerNode l c a R ?th pss' None ml) of
                Inl e \<Rightarrow> Inl e
              | Inr self' \<Rightarrow> Inr (self', w1)))"
      by (simp only: update_once.simps Let_def option.case sum.case prod.case)
    show ?thesis
      unfolding None by (simp only: L R maxwells_demon_leaf)
  next
    case (Some css)
    let ?self = "SpinnerNode l c a R ?th pss (Some css) ml"
    let ?F = "\<lambda>lobe_idx ps u.
          mapM_state (update_particle lobe_idx (get_lobe_center ?self lobe_idx) R dt) ps u"
    let ?G = "\<lambda>lobe_idx child_list u.
               mapM_state (\<lambda>child v. update dt (set_center (get_lobe_center ?self lobe_idx) child) v)
                 child_list u"
    let ?H = "\<lambda>lobe_idx child_list u.
               mapM_state (\<lambda>child v. update_once dt (set_center (get_lobe_center ?self lobe_idx) child) v)
                 child_list u"
    have L: "update dt (SpinnerNode l c a R th pss (Some css) ml) w =
        (case for_lobes ?F [0, 1, 2] pss w of
           Inl e \<Rightarrow> Inl e
         | Inr (pss', w1) \<Rightarrow>
             (case (case mapM_enum ?G 0 css w1 of
                      Inl e \<Rightarrow> Inl e
                    | Inr (css', w2) \<Rightarrow> Inr (Some css', w2)) of
                Inl e \<Rightarrow> Inl e
              | Inr (ch', w2) \<Rightarrow>
                  (case maxwells_demon (SpinnerNode l c a R ?th pss' ch' ml) of
                     Inl e \<Rightarrow> Inl e
                   | Inr self' \<Rightarrow> Inr (self', w2))))"
      by (simp only: update.simps Let_def option.case)
    have R: "update_once dt (SpinnerNode l c a R th pss (Some css) ml) w =
        (case for_lobes ?F [0, 1, 2] pss w of
           Inl e \<Rightarrow> Inl e
         | Inr (pss', w1) \<Rightarrow>
             (case (case mapM_enum ?H 0 css w1 of
                      Inl e \<Rightarrow> Inl e
                    | Inr (css', w2) \<Rightarrow> Inr (Some css', w2)) of
                Inl e \<Rightarrow> Inl e
              | Inr (ch', w2) \<Rightarrow>
                  (case demon_own (SpinnerNode l c a R ?th pss' ch' ml) of
                     Inl e \<Rightarrow> Inl e
                   | Inr self' \<Rightarrow> Inr (self', w2))))"
      by (simp only: update_once.simps Let_def option.case)
    have "update dt (SpinnerNode l c a R th pss (Some css) ml) w
            = update_once dt (SpinnerNode l c a R th pss (Some css) ml) w"
    proof (cases "for_lobes ?F [0, 1, 2] pss w")
      case (Inl e)
      show ?thesis
        by (simp only: L R Inl sum.case)
    next
      case (Inr r)
      obtain pss' w1 where r: "r = (pss', w1)" by (cases r)
      note A = Inr [unfolded r]
      have GH: "mapM_enum ?G 0 css w1 = mapM_enum ?H 0 css w1"
      proof (intro mapM_enum_cong mapM_state_cong refl)
        fix k cs u x v
        assume "cs \<in> set css" "x \<in> set cs"
        with "1.IH" [unfolded Some, OF refl refl A refl refl]
        show "update dt (set_center (get_lobe_center ?self k) x) v
                     = update_once dt (set_center (get_lobe_center ?self k) x) v"
          by blast
      qed
      show ?thesis
      proof (cases "mapM_enum ?G 0 css w1")
        case (Inl e)
        show ?thesis
          by (simp only: L R A GH [symmetric] Inl sum.case prod.case)
      next
        case (Inr q)
        obtain css' w2 where q: "q = (css', w2)" by (cases q)
        note B = Inr [unfolded q]
        let ?Q = "\<lambda>(x::SpinnerNode) (y::SpinnerNode). maxwells_demon y = Inr y"
        have "list_all2 (list_all2 ?Q) css css'"
          using B
        proof (rule mapM_enum_post)
          fix k cs u ds u'
          assume "mapM_state (\<lambda>child v. update dt (set_center (get_lobe_center ?self k) child) v) cs u
                    = Inr (ds, u')"
          then show "list_all2 ?Q cs ds"
            by (rule mapM_state_post) (rule update_fixed)
        qed
        then have fixed: "maxwells_demon x = Inr x" if "cs \<in> set css'" "x \<in> set cs" for cs x
          using that by (meson list_all2_setD2)
        have D: "maxwells_demon (SpinnerNode l c a R ?th pss' (Some css') ml)
                = demon_own (SpinnerNode l c a R ?th pss' (Some css') ml)"
          using fixed by (rule maxwells_demon_sorted_children)
        show ?thesis
          by (simp only: L R A GH [symmetric] B sum.case prod.case D)
      qed
    qed
    then show ?thesis
      unfolding Some .
  qed
qed

text \<open>
  Claim C3, amended. In one tick every node sorts its own three particle groups at the end
  of its own \<^verbatim>\<open>update\<close>; the \<^verbatim>\<open>maxwells_demon\<close> call of a parent sorts the groups of all
  its descendants again, and these repeated sorts change nothing: the tick returns exactly
  what the tick with one sort per node returns, and the tree it leaves is a fixed point of
  \<^verbatim>\<open>maxwells_demon\<close>.
\<close>

theorem demon_sort_once_per_tick:
  "update dt n w = update_once dt n w \<and>
   (\<forall>n' w'. update dt n w = Inr (n', w') \<longrightarrow> maxwells_demon n' = Inr n')"
  using update_eq_update_once [of dt n w] update_fixed [of dt n w] by blast

theorem demon_sort_once_per_tick_witness:
  "\<exists>n' w'. update 16 example_tree still_world = Inr (n', w') \<and>
            update_once 16 example_tree still_world = Inr (n', w') \<and>
            maxwells_demon n' = Inr n'"
proof -
  obtain r where "update 16 example_tree still_world = Inr r"
    using update_total [OF example_tree_fits] by blast
  then obtain n' w' where "update 16 example_tree still_world = Inr (n', w')"
    by (cases r) auto
  then show ?thesis
    using demon_sort_once_per_tick [of 16 example_tree still_world] by auto
qed

text \<open>
  Claim C3 as stated fails: the sort step of a parent does apply the sort to the particle
  groups of its children. Called on the example root, it moves the particle of the child.
\<close>

theorem demon_recursion_counterexample:
  "maxwells_demon example_tree = Inr example_sorted \<and>
   children example_sorted \<noteq> children example_tree"
  by (simp add: example_tree_sorted) (simp add: example_tree_def example_sorted_def example_leaf_def)

subsection \<open>Construction and counts\<close>

lemma repeatM_post:
  assumes "repeatM k f s = Inr (ys, s')"
    and "\<And>u y u'. f u = Inr (y, u') \<Longrightarrow> Q y"
  shows "length ys = k \<and> (\<forall>y\<in>set ys. Q y)"
  using assms(1)
proof (induction k arbitrary: s ys)
  case 0
  then show ?case by simp
next
  case (Suc k)
  from Suc.prems obtain y s1 ys' where
    1: "f s = Inr (y, s1)" and 2: "repeatM k f s1 = Inr (ys', s')" and 3: "ys = y # ys'"
    by (auto split: sum.splits prod.splits)
  show ?case
    using Suc.IH [OF 2] assms(2) [OF 1] 3 by simp
qed

lemma repeatM_total:
  assumes "\<And>u. \<exists>r. f u = Inr r"
  shows "\<exists>r. repeatM k f s = Inr r"
proof (induction k arbitrary: s)
  case 0
  show ?case by simp
next
  case (Suc k)
  obtain y s1 where 1: "f s = Inr (y, s1)"
    using assms [of s] by auto
  obtain r where "repeatM k f s1 = Inr r"
    using Suc [of s1] by auto
  with 1 show ?case by (cases r) simp
qed

lemma init_particles_result:
  "\<exists>ps0 ps1 ps2 w'.
     init_particles (SpinnerNode l c a R th [[], [], []] ch ml) k w
       = Inr (SpinnerNode l c a R th [ps0, ps1, ps2] ch ml, w') \<and>
     length ps0 = k \<and> length ps1 = k \<and> length ps2 = k"
proof -
  let ?self = "SpinnerNode l c a R th [[], [], []] ch ml"
  let ?f = "\<lambda>lobe_idx (ps::particle list) u.
              repeatM k (new_particle (get_lobe_center ?self lobe_idx) (lobe_radius ?self)) u"
  have new: "\<exists>r. new_particle lc R' u = Inr r" for lc R' u
    by (simp add: new_particle_def Let_def split: prod.splits)
  have rep: "\<exists>r. repeatM k (new_particle lc R') u = Inr r" for lc R' u
    by (rule repeatM_total) (rule new)
  have "\<exists>r. for_lobes ?f [0, 1, 2] [[], [], []] w = Inr r"
    by (rule for_lobes_three_total) (simp, rule rep)
  then obtain pss' w' where A: "for_lobes ?f [0, 1, 2] [[], [], []] w = Inr (pss', w')"
    by auto
  note post = for_lobes_three_post [OF A]
  from post have len: "length pss' = 3" by simp
  then obtain ps0 ps1 ps2 where pss': "pss' = [ps0, ps1, ps2]"
    by (auto simp: length_Suc_conv numeral_3_eq_3)
  have "length (pss' ! i) = k" if i: "i < 3" for i
  proof -
    obtain u u' where "?f i ([[], [], []] ! i) u = Inr (pss' ! i, u')"
      using for_lobes_three_nth [OF A i] by blast
    from repeatM_post [OF this, where Q = "\<lambda>_. True"] show ?thesis
      by simp
  qed
  from this [of 0] this [of 1] this [of 2] have "length ps0 = k" "length ps1 = k" "length ps2 = k"
    by (simp_all add: pss')
  moreover have "init_particles ?self k w = Inr (SpinnerNode l c a R th [ps0, ps1, ps2] ch ml, w')"
    unfolding init_particles_def using A by (simp del: for_lobes.simps add: pss')
  ultimately show ?thesis by blast
qed

lemma geo_Suc: "(\<Sum>k\<le>Suc d. (9::nat) ^ k) = 1 + 9 * (\<Sum>k\<le>d. 9 ^ k)"
  by (simp add: sum.atMost_Suc_shift sum_distrib_left del: sum.atMost_Suc)

lemma sum_list_const:
  fixes v :: "'a::semiring_1"
  assumes "\<And>x. x \<in> set xs \<Longrightarrow> f x = v"
  shows "sum_list (map f xs) = of_nat (length xs) * v"
  using assms by (induction xs) (simp_all add: algebra_simps)

lemma sum_list_const_nested:
  fixes v :: "'a::semiring_1"
  assumes "length css = 3" and "\<And>cs. cs \<in> set css \<Longrightarrow> length cs = 3"
    and "\<And>cs x. cs \<in> set css \<Longrightarrow> x \<in> set cs \<Longrightarrow> f x = v"
  shows "sum_list (map (\<lambda>cs. sum_list (map f cs)) css) = 9 * v"
proof -
  have "sum_list (map f cs) = 3 * v" if "cs \<in> set css" for cs
    using sum_list_const [of cs f v] assms(2,3) that by simp
  then have "sum_list (map (\<lambda>cs. sum_list (map f cs)) css) = of_nat (length css) * (3 * v)"
    by (rule sum_list_const)
  then show ?thesis
    using assms(1) by (simp add: algebra_simps)
qed

lemma SpinnerNode_init_leaf:
  assumes "\<not> l < ml"
  shows "\<exists>T w'. SpinnerNode_init l c a R ml w = Inr (T, w') \<and> built l ml T"
proof -
  obtain ps0 ps1 ps2 w' where
    i: "init_particles (SpinnerNode l c a R 0 [[], [], []] None ml) PARTICLES_PER_LOBE w
          = Inr (SpinnerNode l c a R 0 [ps0, ps1, ps2] None ml, w')"
    and len: "length ps0 = PARTICLES_PER_LOBE" "length ps1 = PARTICLES_PER_LOBE"
      "length ps2 = PARTICLES_PER_LOBE"
    using init_particles_result [of l c a R 0 None ml PARTICLES_PER_LOBE w] by blast
  have "SpinnerNode_init l c a R ml w = Inr (SpinnerNode l c a R 0 [ps0, ps1, ps2] None ml, w')"
    by (subst SpinnerNode_init.simps) (simp only: assms if_False Let_def i sum.case prod.case)
  moreover have "built l ml (SpinnerNode l c a R 0 [ps0, ps1, ps2] None ml)"
    using assms len by (simp add: built_def node_branching_def)
  ultimately show ?thesis by blast
qed

lemma SpinnerNode_init_inner:
  assumes lt: "l < ml"
    and IH: "\<And>c' a' R' v. \<exists>T w'. SpinnerNode_init (l + 1) c' a' R' ml v = Inr (T, w') \<and> built (l + 1) ml T"
  shows "\<exists>T w'. SpinnerNode_init l c a R ml w = Inr (T, w') \<and> built l ml T"
proof -
  let ?self = "SpinnerNode l c a R 0 [[], [], []] (Some [[], [], []]) ml"
  let ?K = "\<lambda>i u. repeatM 3 (\<lambda>v. SpinnerNode_init (l + 1) (get_lobe_center ?self i)
                                     (a * 0.4) (R * 0.4) ml v) u"
  have "\<exists>r. mapM_state ?K [0, 1, 2] w = Inr r"
  proof (rule mapM_state_total)
    fix i :: nat and u
    show "\<exists>r. repeatM 3 (\<lambda>v. SpinnerNode_init (l + 1) (get_lobe_center ?self i)
                                     (a * 0.4) (R * 0.4) ml v) u = Inr r"
      by (rule repeatM_total) (use IH in blast)
  qed
  then obtain css w1 where m: "mapM_state ?K [0, 1, 2] w = Inr (css, w1)"
    by auto
  let ?Q = "\<lambda>(i::nat) cs. length cs = 3 \<and> (\<forall>T\<in>set cs. built (l + 1) ml T)"
  have "list_all2 ?Q [0, 1, 2] css"
    using m
  proof (rule mapM_state_post)
    fix i :: nat and u cs u'
    assume "repeatM 3 (\<lambda>v. SpinnerNode_init (l + 1) (get_lobe_center ?self i)
                                     (a * 0.4) (R * 0.4) ml v) u = Inr (cs, u')"
    then show "length cs = 3 \<and> (\<forall>T\<in>set cs. built (l + 1) ml T)"
    proof (rule repeatM_post)
      fix v T v'
      assume "SpinnerNode_init (l + 1) (get_lobe_center ?self i) (a * 0.4) (R * 0.4) ml v = Inr (T, v')"
      then show "built (l + 1) ml T"
        using IH [of "get_lobe_center ?self i" "a * 0.4" "R * 0.4" v] by simp
    qed
  qed
  then have len: "length css = 3"
    and each: "\<And>cs. cs \<in> set css \<Longrightarrow> length cs = 3 \<and> (\<forall>T\<in>set cs. built (l + 1) ml T)"
    by (auto dest: list_all2_lengthD list_all2_setD2)
  obtain ps0 ps1 ps2 w' where
    i: "init_particles (SpinnerNode l c a R 0 [[], [], []] (Some css) ml) PARTICLES_PER_LOBE w1
          = Inr (SpinnerNode l c a R 0 [ps0, ps1, ps2] (Some css) ml, w')"
    and plen: "length ps0 = PARTICLES_PER_LOBE" "length ps1 = PARTICLES_PER_LOBE"
      "length ps2 = PARTICLES_PER_LOBE"
    using init_particles_result [of l c a R 0 "Some css" ml PARTICLES_PER_LOBE w1] by blast
  let ?T = "SpinnerNode l c a R 0 [ps0, ps1, ps2] (Some css) ml"
  have run: "SpinnerNode_init l c a R ml w = Inr (?T, w')"
    by (subst SpinnerNode_init.simps) (simp only: lt if_True Let_def m i sum.case prod.case)
  have d: "nat (ml - l) = Suc (nat (ml - (l + 1)))"
    using lt by simp
  have cn: "sum_list (map (\<lambda>cs. sum_list (map count_nodes cs)) css) = 9 * (\<Sum>k\<le>nat (ml - (l + 1)). 9 ^ k)"
    by (rule sum_list_const_nested [OF len]) (use each in \<open>auto simp: built_def\<close>)
  have tp: "sum_list (map (\<lambda>cs. sum_list (map total_particles cs)) css)
              = 9 * (int (PARTICLES_PER_LOBE * 3) * int (\<Sum>k\<le>nat (ml - (l + 1)). 9 ^ k))"
    by (rule sum_list_const_nested [OF len]) (use each in \<open>auto simp: built_def\<close>)
  have br: "\<forall>cs\<in>set css. \<forall>n\<in>set cs. all_nodes node_branching n"
    using each by (auto simp: built_def)
  have "built l ml ?T"
    unfolding built_def d geo_Suc
    using lt len each br plen
    by (simp add: total_particles_sum cn tp node_branching_def list_all_iff algebra_simps
          del: total_particles.simps sum.atMost_Suc)
  with run show ?thesis by blast
qed

lemma SpinnerNode_init_built:
  "\<exists>T w'. SpinnerNode_init l c a R ml w = Inr (T, w') \<and> built l ml T"
proof (induction "nat (ml - l)" arbitrary: l c a R w)
  case 0
  then have "\<not> l < ml" by simp
  then show ?case by (rule SpinnerNode_init_leaf)
next
  case (Suc d)
  then have lt: "l < ml" and d: "d = nat (ml - (l + 1))"
    by simp_all
  show ?case
    using lt
  proof (rule SpinnerNode_init_inner)
    fix c' a' R' v
    show "\<exists>T w'. SpinnerNode_init (l + 1) c' a' R' ml v = Inr (T, w') \<and> built (l + 1) ml T"
      by (rule Suc.hyps(1) [OF d])
  qed
qed

lemma sum_list_rel:
  fixes f :: "'a \<Rightarrow> 'b::comm_monoid_add"
  shows "list_all2 (\<lambda>x y. f y = f x) xs ys \<Longrightarrow> sum_list (map f ys) = sum_list (map f xs)"
  by (induction rule: list_all2_induct) simp_all

lemma sum_list_rel_nested:
  fixes f :: "'a \<Rightarrow> 'b::comm_monoid_add"
  assumes "list_all2 (list_all2 (\<lambda>x y. f y = f x)) css css'"
  shows "sum_list (map (\<lambda>cs. sum_list (map f cs)) css') = sum_list (map (\<lambda>cs. sum_list (map f cs)) css)"
proof -
  have "list_all2 (\<lambda>cs cs'. sum_list (map f cs') = sum_list (map f cs)) css css'"
    using assms by (rule list_all2_mono) (rule sum_list_rel)
  then show ?thesis
    by (rule sum_list_rel)
qed

lemma count_nodes_children:
  "count_nodes (SpinnerNode l c a R th pss ch ml) =
     1 + (case ch of None \<Rightarrow> 0 | Some css \<Rightarrow> sum_list (map (\<lambda>cs. sum_list (map count_nodes cs)) css))"
  by (simp split: option.splits)

lemma same_counts_node:
  assumes "map length pss' = map length pss"
    and "(ch = None \<and> ch' = None) \<or>
         (\<exists>css css'. ch = Some css \<and> ch' = Some css' \<and> list_all2 (list_all2 same_counts) css css')"
  shows "same_counts (SpinnerNode l c a R th pss ch ml) (SpinnerNode l' c' a' R' th' pss' ch' ml')"
proof -
  have groups: "sum_list (map (\<lambda>arr. int (length arr)) pss') = sum_list (map (\<lambda>arr. int (length arr)) pss)"
    using arg_cong [OF assms(1), of "\<lambda>xs. sum_list (map int xs)"] by (simp add: comp_def)
  from assms(2) show ?thesis
  proof (elim disjE conjE exE)
    assume "ch = None" "ch' = None"
    then show ?thesis
      by (simp add: same_counts_def total_particles_sum groups del: total_particles.simps)
  next
    fix css css'
    assume ch: "ch = Some css" "ch' = Some css'"
      and rel: "list_all2 (list_all2 same_counts) css css'"
    have "list_all2 (list_all2 (\<lambda>x y. total_particles y = total_particles x)) css css'"
      using rel by (rule list_all2_mono) (erule list_all2_mono, simp add: same_counts_def)
    then have tp: "sum_list (map (\<lambda>cs. sum_list (map total_particles cs)) css')
                 = sum_list (map (\<lambda>cs. sum_list (map total_particles cs)) css)"
      by (rule sum_list_rel_nested)
    have "list_all2 (list_all2 (\<lambda>x y. count_nodes y = count_nodes x)) css css'"
      using rel by (rule list_all2_mono) (erule list_all2_mono, simp add: same_counts_def)
    then have cn: "sum_list (map (\<lambda>cs. sum_list (map count_nodes cs)) css')
                 = sum_list (map (\<lambda>cs. sum_list (map count_nodes cs)) css)"
      by (rule sum_list_rel_nested)
    show ?thesis
      unfolding ch same_counts_def total_particles_sum count_nodes_children
      by (simp add: groups tp cn)
  qed
qed

lemma same_counts_refl: "same_counts n n"
  by (simp add: same_counts_def)

lemma same_counts_trans: "same_counts x y \<Longrightarrow> same_counts y z \<Longrightarrow> same_counts x z"
  by (simp add: same_counts_def)

lemma demon_map_counts: "same_counts n (demon_map n)"
proof (induction n rule: demon_map.induct)
  case (1 l c a R th pss ch ml)
  let ?pss' = "on_lobes (\<lambda>i. map (demon_particle (get_lobe_center (SpinnerNode l c a R th pss ch ml) i))) pss"
  have g: "map length ?pss' = map length pss"
    by (rule sum_list_on_lobes) simp
  show ?case
  proof (cases ch)
    case None
    show ?thesis
      unfolding None demon_map.simps option.case
      by (rule same_counts_node [OF g [unfolded None]]) simp
  next
    case (Some css)
    have "list_all2 (list_all2 same_counts) css (map (map demon_map) css)"
      using 1 Some by (simp add: list_all2_map_same)
    then show ?thesis
      unfolding Some demon_map.simps option.case
      by (intro same_counts_node [OF g [unfolded Some]]) simp
  qed
qed

lemma set_center_counts: "same_counts (set_center lc n) n"
  by (cases n) (simp add: same_counts_def)

lemma update_lobes_lengths:
  assumes "for_lobes (\<lambda>i ps u. mapM_state (update_particle i (g i) R dt) ps u) [0, 1, 2] pss w
             = Inr (pss', w1)"
  shows "map length pss' = map length pss"
proof (rule nth_equalityI)
  note post = for_lobes_three_post [OF assms]
  show "length (map length pss') = length (map length pss)"
    using post by simp
  fix i
  assume "i < length (map length pss')"
  then have i: "i < length pss'" "i < length pss"
    using post by simp_all
  have "length (pss' ! i) = length (pss ! i)"
  proof (cases "i < 3")
    case True
    obtain u u' where "mapM_state (update_particle i (g i) R dt) (pss ! i) u = Inr (pss' ! i, u')"
      using for_lobes_three_nth [OF assms True] by blast
    then show ?thesis
      by (rule update_particle_length)
  next
    case False
    then show ?thesis using post by simp
  qed
  then show "map length pss' ! i = map length pss ! i"
    using i by simp
qed

lemma update_counts:
  "update dt n w = Inr (n', w') \<Longrightarrow> same_counts n n'"
proof (induction dt n w arbitrary: n' w' rule: update.induct)
  case (1 dt l c a R th pss ch ml w)
  let ?th = "th + dt * (1 + real_of_int l * 0.3)"
  let ?self = "SpinnerNode l c a R ?th pss ch ml"
  from "1.prems"(1) obtain pss' w1 ch' where
    A: "for_lobes (\<lambda>lobe_idx ps u.
          mapM_state (update_particle lobe_idx (get_lobe_center ?self lobe_idx) R dt) ps u)
        [0, 1, 2] pss w = Inr (pss', w1)" and
    B: "(ch = None \<and> ch' = None \<and> w' = w1) \<or>
        (\<exists>css css'. ch = Some css \<and> ch' = Some css' \<and>
           mapM_enum (\<lambda>lobe_idx child_list u.
               mapM_state (\<lambda>child v. update dt (set_center (get_lobe_center ?self lobe_idx) child) v)
                 child_list u)
             0 css w1 = Inr (css', w'))" and
    C: "maxwells_demon (SpinnerNode l c a R ?th pss' ch' ml) = Inr n'"
    by (rule update_InrE)
  have g: "map length pss' = map length pss"
    using A by (rule update_lobes_lengths)
  have kids: "(ch = None \<and> ch' = None) \<or>
         (\<exists>css css'. ch = Some css \<and> ch' = Some css' \<and> list_all2 (list_all2 same_counts) css css')"
    using B
  proof (elim disjE conjE exE)
    assume "ch = None" "ch' = None"
    then show ?thesis by simp
  next
    fix css css'
    assume ch: "ch = Some css" "ch' = Some css'"
      and m: "mapM_enum (\<lambda>lobe_idx child_list u.
               mapM_state (\<lambda>child v. update dt (set_center (get_lobe_center ?self lobe_idx) child) v)
                 child_list u)
             0 css w1 = Inr (css', w')"
    have "list_all2 (list_all2 same_counts) css css'"
      using m
    proof (rule mapM_enum_post)
      fix k cs u ds u'
      assume cs: "cs \<in> set css"
        and r: "mapM_state (\<lambda>child v. update dt (set_center (get_lobe_center ?self k) child) v) cs u
                 = Inr (ds, u')"
      show "list_all2 same_counts cs ds"
        using r
      proof (rule mapM_state_post)
        fix x v y v'
        assume x: "x \<in> set cs"
          and up: "update dt (set_center (get_lobe_center ?self k) x) v = Inr (y, v')"
        have "same_counts (set_center (get_lobe_center ?self k) x) y"
          by (rule "1.IH" [OF refl refl A refl ch(1) cs x up])
        then show "same_counts x y"
          using set_center_counts [of "get_lobe_center ?self k" x] by (simp add: same_counts_def)
      qed
    qed
    with ch show ?thesis by simp
  qed
  have "same_counts (SpinnerNode l c a R th pss ch ml) (SpinnerNode l c a R ?th pss' ch' ml)"
    using g kids by (rule same_counts_node)
  moreover have "n' = demon_map (SpinnerNode l c a R ?th pss' ch' ml)"
    using maxwells_demon_InrD [OF C] by simp
  ultimately show ?case
    using demon_map_counts same_counts_trans by blast
qed

lemma ticks_counts:
  "ticks dts n w = Inr (n', w') \<Longrightarrow> same_counts n n'"
proof (induction dts arbitrary: n w)
  case Nil
  then show ?case by (simp add: same_counts_def)
next
  case (Cons dt dts)
  from Cons.prems obtain n1 w1 where u: "update dt n w = Inr (n1, w1)"
    and t: "ticks dts n1 w1 = Inr (n', w')"
    by (auto split: sum.splits)
  show ?case
    using update_counts [OF u] Cons.IH [OF t] by (rule same_counts_trans)
qed

text \<open>
  Claim C6. The tree constructed at level 0 with \<open>max_level = L\<close> has exactly
  \<open>\<Sum>k\<le>L. 9^k\<close> nodes: a node has nine children (three lists of three) exactly when its
  level is below \<open>max_level\<close>, and none otherwise. \<^verbatim>\<open>total_particles()\<close> on its root returns
  \<open>(PARTICLES_PER_LOBE * 3) * (\<Sum>k\<le>L. 9^k)\<close>, and returns the same after any number of ticks.
  The construction always returns.
\<close>

theorem tree_shape:
  "\<exists>T w'. SpinnerNode_init 0 c a R (int L) w = Inr (T, w') \<and>
      count_nodes T = (\<Sum>k\<le>L. 9 ^ k) \<and>
      total_particles T = int (PARTICLES_PER_LOBE * 3) * int (\<Sum>k\<le>L. 9 ^ k) \<and>
      all_nodes node_branching T \<and>
      (\<forall>dts w2 T' w3. ticks dts T w2 = Inr (T', w3) \<longrightarrow>
         total_particles T' = total_particles T \<and> count_nodes T' = count_nodes T)"
proof -
  obtain T w' where i: "SpinnerNode_init 0 c a R (int L) w = Inr (T, w')"
    and b: "built 0 (int L) T"
    using SpinnerNode_init_built [of 0 c a R "int L" w] by blast
  have "total_particles T' = total_particles T \<and> count_nodes T' = count_nodes T"
    if "ticks dts T w2 = Inr (T', w3)" for dts w2 T' w3
    using ticks_counts [OF that] by (simp add: same_counts_def)
  with i b show ?thesis
    by (auto simp: built_def)
qed

lemma geo_2: "(\<Sum>k\<le>2. (9::nat) ^ k) = 91"
  by (simp add: numeral_2_eq_2)

lemma still_random: "random_random still_world = (1 / 2, still_world)"
  by (simp add: random_random_def still_world_def)

lemma still_new_particle:
  "\<exists>p. new_particle lc R still_world = Inr (p, still_world) \<and> radius p = 3"
  by (simp add: new_particle_def still_random Particle_init_def Let_def)

lemma still_repeat:
  "\<exists>ps. repeatM k (new_particle lc R) still_world = Inr (ps, still_world) \<and>
        (\<forall>p\<in>set ps. radius p = 3)"
proof (induction k)
  case 0
  show ?case by simp
next
  case (Suc k)
  obtain p where p: "new_particle lc R still_world = Inr (p, still_world)" "radius p = 3"
    using still_new_particle by blast
  obtain ps where "repeatM k (new_particle lc R) still_world = Inr (ps, still_world)"
    "\<forall>p\<in>set ps. radius p = 3"
    using Suc by blast
  with p show ?case by simp
qed

lemma still_leaf:
  "\<exists>T. SpinnerNode_init 0 c a 110 0 still_world = Inr (T, still_world) \<and> all_nodes node_fits T"
proof -
  let ?self = "SpinnerNode 0 c a 110 0 [[], [], []] None 0"
  obtain ps0 where 0: "repeatM PARTICLES_PER_LOBE (new_particle (get_lobe_center ?self 0) 110) still_world
      = Inr (ps0, still_world)" "\<forall>p\<in>set ps0. radius p = 3"
    using still_repeat by blast
  obtain ps1 where 1: "repeatM PARTICLES_PER_LOBE (new_particle (get_lobe_center ?self (Suc 0)) 110) still_world
      = Inr (ps1, still_world)" "\<forall>p\<in>set ps1. radius p = 3"
    using still_repeat by blast
  obtain ps2 where 2: "repeatM PARTICLES_PER_LOBE (new_particle (get_lobe_center ?self 2) 110) still_world
      = Inr (ps2, still_world)" "\<forall>p\<in>set ps2. radius p = 3"
    using still_repeat by blast
  have "init_particles ?self PARTICLES_PER_LOBE still_world
          = Inr (SpinnerNode 0 c a 110 0 [ps0, ps1, ps2] None 0, still_world)"
    unfolding init_particles_def
    by (simp add: 0 1 2)
  then have "SpinnerNode_init 0 c a 110 0 still_world
          = Inr (SpinnerNode 0 c a 110 0 [ps0, ps1, ps2] None 0, still_world)"
    by (subst SpinnerNode_init.simps) (simp add: Let_def)
  moreover have "all_nodes node_fits (SpinnerNode 0 c a 110 0 [ps0, ps1, ps2] None 0)"
    using 0 1 2 by (simp add: node_fits_def)
  ultimately show ?thesis by blast
qed

theorem tree_shape_witness:
  "(\<exists>T w'. SpinnerNode_init 0 (600, 400) 170 110 2 still_world = Inr (T, w') \<and>
      count_nodes T = 91 \<and> total_particles T = 1638 \<and> all_nodes node_branching T) \<and>
   (\<exists>T w' T' w3. SpinnerNode_init 0 (600, 400) 170 110 0 still_world = Inr (T, w') \<and>
      count_nodes T = 1 \<and> total_particles T = 18 \<and>
      ticks [16, 17] T w' = Inr (T', w3) \<and> total_particles T' = 18)"
proof -
  have 1: "\<exists>T w'. SpinnerNode_init 0 (600, 400) 170 110 2 still_world = Inr (T, w') \<and>
      count_nodes T = 91 \<and> total_particles T = 1638 \<and> all_nodes node_branching T"
    using tree_shape [of "(600, 400)" 170 110 2 still_world]
    by (simp add: geo_2 PARTICLES_PER_LOBE_def) blast
  obtain T where T: "SpinnerNode_init 0 (600, 400) 170 110 0 still_world = Inr (T, still_world)"
    and fits: "all_nodes node_fits T"
    using still_leaf by blast
  obtain T' w3 where t: "ticks [16, 17] T still_world = Inr (T', w3)"
    using ticks_invariant [OF fits, of "[16, 17]" still_world] by blast
  obtain T0 w0 where a: "SpinnerNode_init 0 (600, 400) 170 110 (int 0) still_world = Inr (T0, w0)"
    and b: "count_nodes T0 = (\<Sum>k\<le>0. 9 ^ k)"
    and c: "total_particles T0 = int (PARTICLES_PER_LOBE * 3) * int (\<Sum>k\<le>0. 9 ^ k)"
    and d: "\<forall>dts w2 T' w3. ticks dts T0 w2 = Inr (T', w3) \<longrightarrow>
              total_particles T' = total_particles T0 \<and> count_nodes T' = count_nodes T0"
    using tree_shape [of "(600, 400)" 170 110 0 still_world] by blast
  from a T have T0: "T0 = T" by simp
  from d t have "total_particles T' = total_particles T"
    unfolding T0 by blast
  with b c have "count_nodes T = 1 \<and> total_particles T = 18 \<and> total_particles T' = 18"
    unfolding T0 by (simp add: PARTICLES_PER_LOBE_def)
  with T t have 2: "\<exists>T w' T' w3. SpinnerNode_init 0 (600, 400) 170 110 0 still_world = Inr (T, w') \<and>
      count_nodes T = 1 \<and> total_particles T = 18 \<and>
      ticks [16, 17] T w' = Inr (T', w3) \<and> total_particles T' = 18"
    by blast
  show ?thesis using 1 2 by blast
qed

end
